theory Spec2Isabelle
  imports Main "HOL-Library.AList"
begin

section \<open>Strings, as the source uses them\<close>

text \<open>
  A JavaScript string is a sequence of 16-bit code units. It is modelled by the list of
  the bytes of its UTF-8 encoding, a \<^typ>\<open>string\<close>, where a surrogate that is not part
  of a pair (a lone surrogate, U+D800..U+DFFF) is written like any other code point of
  its size: the three bytes \<open>ED A0..BF 80..BF\<close>. Every JavaScript string has exactly
  one such list. The source joins strings only at ASCII characters and tests them only
  against ASCII patterns, and there a list of bytes behaves as the string does. A
  \<open>Buffer\<close> is a list of bytes, again a \<^typ>\<open>string\<close>. The functions below are the
  methods of \<open>String.prototype\<close> that \<open>crypto.js\<close>, \<open>cli-encrypt.js\<close> and
  \<open>load-config.js\<close> call.
\<close>

type_synonym buffer = string

definition startsWith :: "string \<Rightarrow> string \<Rightarrow> bool" where
  "startsWith s p = (take (length p) s = p)"

definition endsWith :: "string \<Rightarrow> string \<Rightarrow> bool" where
  "endsWith s p = (length p \<le> length s \<and> drop (length s - length p) s = p)"

fun includes_str :: "string \<Rightarrow> string \<Rightarrow> bool" where
  "includes_str [] p = (p = [])"
| "includes_str (c # cs) p = (startsWith (c # cs) p \<or> includes_str cs p)"

text \<open>
  \<open>String.prototype.trim\<close> strips white space and line terminators from both ends. In
  UTF-8 they are one byte (TAB, LF, VT, FF, CR, SPACE), two bytes (U+00A0 is \<open>C2 A0\<close>)
  or three bytes (U+1680 is \<open>E1 9A 80\<close>; U+2000..U+200A, U+2028, U+2029 and U+202F are
  \<open>E2 80\<close> and one of \<open>80..8A\<close>, \<open>A8\<close>, \<open>A9\<close>, \<open>AF\<close>; U+205F is \<open>E2 81 9F\<close>; U+3000 is
  \<open>E3 80 80\<close>; U+FEFF is \<open>EF BB BF\<close>).
\<close>

definition ws1 :: "char \<Rightarrow> bool" where
  "ws1 a = (of_char a \<in> {9, 10, 11, 12, 13, 32 :: nat})"

definition ws2 :: "char \<Rightarrow> char \<Rightarrow> bool" where
  "ws2 a b = (of_char a = (0xC2 :: nat) \<and> of_char b = (0xA0 :: nat))"

definition ws3 :: "char \<Rightarrow> char \<Rightarrow> char \<Rightarrow> bool" where
  "ws3 a b c =
     (let x = of_char a :: nat; y = of_char b :: nat; z = of_char c :: nat
      in (x = 0xE1 \<and> y = 0x9A \<and> z = 0x80) \<or>
         (x = 0xE2 \<and> y = 0x80 \<and> ((0x80 \<le> z \<and> z \<le> 0x8A) \<or> z = 0xA8 \<or> z = 0xA9 \<or> z = 0xAF)) \<or>
         (x = 0xE2 \<and> y = 0x81 \<and> z = 0x9F) \<or>
         (x = 0xE3 \<and> y = 0x80 \<and> z = 0x80) \<or>
         (x = 0xEF \<and> y = 0xBB \<and> z = 0xBF))"

text \<open>
  \<open>strip\<close> removes the white space at the front, given the tests for one, two and three
  bytes; \<open>trim\<close> strips the front, and the back by reading the string backwards.
\<close>

fun strip ::
  "(char \<Rightarrow> bool) \<Rightarrow> (char \<Rightarrow> char \<Rightarrow> bool) \<Rightarrow> (char \<Rightarrow> char \<Rightarrow> char \<Rightarrow> bool) \<Rightarrow> string
     \<Rightarrow> string" where
  "strip w1 w2 w3 (a # b # c # cs) =
     (if w1 a then strip w1 w2 w3 (b # c # cs)
      else if w2 a b then strip w1 w2 w3 (c # cs)
      else if w3 a b c then strip w1 w2 w3 cs
      else a # b # c # cs)"
| "strip w1 w2 w3 [a, b] =
     (if w1 a then strip w1 w2 w3 [b] else if w2 a b then [] else [a, b])"
| "strip w1 w2 w3 [a] = (if w1 a then [] else [a])"
| "strip w1 w2 w3 [] = []"

definition trim :: "string \<Rightarrow> string" where
  "trim s =
     rev (strip ws1 (\<lambda>a b. ws2 b a) (\<lambda>a b c. ws3 c b a) (rev (strip ws1 ws2 ws3 s)))"

text \<open>
  Which lists of bytes are strings. \<open>utf8_valid g s\<close> reads \<open>s\<close> as a run of UTF-8
  sequences of one to four bytes, without overlong forms and up to U+10FFFF; the
  surrogates (lead byte \<open>ED\<close>, second byte \<open>A0..BF\<close>) are admitted when \<open>g\<close> holds. A
  JavaScript string is a list that is valid with them; it is well formed, that is free
  of lone surrogates, when it is valid without them.
\<close>

definition continuation :: "char \<Rightarrow> bool" where
  "continuation b = ((0x80 :: nat) \<le> of_char b \<and> of_char b \<le> (0xBF :: nat))"

definition second_of_three :: "bool \<Rightarrow> nat \<Rightarrow> char \<Rightarrow> bool" where
  "second_of_three g x b =
     (let y = of_char b :: nat
      in if x = 0xE0 then 0xA0 \<le> y \<and> y \<le> 0xBF
         else if x = 0xED then 0x80 \<le> y \<and> (if g then y \<le> 0xBF else y \<le> 0x9F)
         else 0x80 \<le> y \<and> y \<le> 0xBF)"

definition second_of_four :: "nat \<Rightarrow> char \<Rightarrow> bool" where
  "second_of_four x b =
     (let y = of_char b :: nat
      in if x = 0xF0 then 0x90 \<le> y \<and> y \<le> 0xBF
         else if x = 0xF4 then 0x80 \<le> y \<and> y \<le> 0x8F
         else 0x80 \<le> y \<and> y \<le> 0xBF)"

fun utf8_valid :: "bool \<Rightarrow> string \<Rightarrow> bool" where
  "utf8_valid g [] = True"
| "utf8_valid g [a] = (of_char a < (0x80 :: nat))"
| "utf8_valid g [a, b] =
     (if of_char a < (0x80 :: nat) then utf8_valid g [b]
      else (0xC2 :: nat) \<le> of_char a \<and> of_char a \<le> (0xDF :: nat) \<and> continuation b)"
| "utf8_valid g [a, b, c] =
     (if of_char a < (0x80 :: nat) then utf8_valid g [b, c]
      else if (0xC2 :: nat) \<le> of_char a \<and> of_char a \<le> (0xDF :: nat)
      then continuation b \<and> utf8_valid g [c]
      else (0xE0 :: nat) \<le> of_char a \<and> of_char a \<le> (0xEF :: nat) \<and>
           second_of_three g (of_char a) b \<and> continuation c)"
| "utf8_valid g (a # b # c # d # cs) =
     (if of_char a < (0x80 :: nat) then utf8_valid g (b # c # d # cs)
      else if (0xC2 :: nat) \<le> of_char a \<and> of_char a \<le> (0xDF :: nat)
      then continuation b \<and> utf8_valid g (c # d # cs)
      else if (0xE0 :: nat) \<le> of_char a \<and> of_char a \<le> (0xEF :: nat)
      then second_of_three g (of_char a) b \<and> continuation c \<and> utf8_valid g (d # cs)
      else (0xF0 :: nat) \<le> of_char a \<and> of_char a \<le> (0xF4 :: nat) \<and>
           second_of_four (of_char a) b \<and> continuation c \<and> continuation d \<and> utf8_valid g cs)"

definition js_string :: "string \<Rightarrow> bool" where
  "js_string s = utf8_valid True s"

definition well_formed :: "string \<Rightarrow> bool" where
  "well_formed s = utf8_valid False s"

text \<open>
  A lone surrogate in a string, and what \<open>Buffer\<close> makes of a string when it encodes
  it as \<open>utf8\<close>: each lone surrogate becomes U+FFFD, the bytes \<open>EF BF BD\<close>; everything
  else is already its UTF-8 encoding.
\<close>

definition surrogate_lead :: "char \<Rightarrow> char \<Rightarrow> bool" where
  "surrogate_lead a b =
     (of_char a = (0xED :: nat) \<and> (0xA0 :: nat) \<le> of_char b \<and> of_char b \<le> (0xBF :: nat))"

fun lone_surrogate :: "string \<Rightarrow> bool" where
  "lone_surrogate (a # b # cs) = (surrogate_lead a b \<or> lone_surrogate (b # cs))"
| "lone_surrogate _ = False"

fun replace_lone_surrogates :: "string \<Rightarrow> buffer" where
  "replace_lone_surrogates (a # b # c # cs) =
     (if surrogate_lead a b
      then CHR 0xEF # CHR 0xBF # CHR 0xBD # replace_lone_surrogates cs
      else a # replace_lone_surrogates (b # c # cs))"
| "replace_lone_surrogates cs = cs"

text \<open>A number inside a template literal (\<open>`${index}`\<close>) is printed in decimal.\<close>

definition digit_char :: "nat \<Rightarrow> char" where
  "digit_char d = ''0123456789'' ! d"

fun show_nat :: "nat \<Rightarrow> string" where
  "show_nat n = (if n < 10 then [digit_char n] else show_nat (n div 10) @ [digit_char (n mod 10)])"

declare show_nat.simps [simp del]

section \<open>The configuration document\<close>

text \<open>
  The values \<open>yaml.load\<close> and \<open>config.get\<close> hand to the code: \<open>null\<close>, \<open>undefined\<close>,
  booleans, numbers, strings, arrays and plain objects. An object is the list of its
  entries in \<open>Object.entries\<close> order; it stands for a mapping, so keys are meant to be
  distinct. Numbers are never inspected by the code except for truthiness.
\<close>

datatype jv =
    JNull
  | JUndef
  | JBool bool
  | JNum int
  | JStr string
  | JArr "jv list"
  | JObj "(string \<times> jv) list"

text \<open>JavaScript truthiness (\<open>!x\<close> is \<open>\<not> truthy x\<close>).\<close>

fun truthy :: "jv \<Rightarrow> bool" where
  "truthy JNull = False"
| "truthy JUndef = False"
| "truthy (JBool b) = b"
| "truthy (JNum n) = (n \<noteq> 0)"
| "truthy (JStr s) = (s \<noteq> [])"
| "truthy (JArr _) = True"
| "truthy (JObj _) = True"

text \<open>
  A string argument that may be absent (\<open>undefined\<close>): \<open>!x\<close> holds when it is absent or
  empty.
\<close>

definition falsy_str :: "string option \<Rightarrow> bool" where
  "falsy_str x = (x = None \<or> x = Some [])"

section \<open>Errors\<close>

text \<open>
  One constructor per \<open>throw\<close> site of the source, named after the taxonomy of the
  specification:
  \<^item> \<open>InvalidInput\<close>: "Plaintext and master password are required" and
    "Encrypted text and master password are required";
  \<^item> \<open>NotEncrypted\<close>: "Text is not in encrypted format";
  \<^item> \<open>AuthenticationFailed\<close>: "Decryption failed: Invalid master password or corrupted data";
  \<^item> \<open>LibraryError m\<close>: an error of \<open>node:crypto\<close> with message \<open>m\<close> that the source lets
    through unchanged;
  \<^item> \<open>MasterSecretRequired\<close>: "Encrypted credentials detected but MASTER_PASSWORD
    environment variable is not set.";
  \<^item> \<open>DecryptionFailed e\<close>: "Failed to decrypt credentials: ..." wrapping the message of \<open>e\<close>;
  \<^item> \<open>MissingRequiredConfig ks\<close>: thrown by \<open>config.required\<close>;
  \<^item> \<open>TypeError\<close>: a property read on \<open>null\<close> or a call of a method that is not there;
  \<^item> \<open>UnsupportedFormatVersion\<close>: named by the specification; no \<open>throw\<close> of the source
    produces it;
  \<^item> \<open>OutsideModel\<close>: the source would store a named property on an array or write
    past its end, which \<^typ>\<open>jv\<close> cannot hold.
\<close>

datatype error =
    InvalidInput
  | NotEncrypted
  | AuthenticationFailed
  | LibraryError string
  | MasterSecretRequired
  | DecryptionFailed error
  | MissingRequiredConfig "string list"
  | TypeError
  | UnsupportedFormatVersion
  | OutsideModel

section \<open>The library \<open>node:crypto\<close> and \<open>Buffer\<close>\<close>

text \<open>
  The primitives the source calls are parameters of the model:
  \<^item> \<open>randomBytes n\<close> draws \<open>n\<close> bytes and advances the generator state;
  \<^item> \<open>pbkdf2 password salt iterations keylen digest\<close>;
  \<^item> \<open>cipher algorithm key iv data\<close> is \<open>createCipheriv\<close>, \<open>update\<close>, \<open>final\<close> and
    \<open>getAuthTag\<close>: the ciphertext and the tag;
  \<^item> \<open>decipher algorithm key iv tag data\<close> is \<open>createDecipheriv\<close>, \<open>setAuthTag\<close>,
    \<open>update\<close> and \<open>final\<close>;
  \<^item> the two encodings of \<open>Buffer\<close>, \<open>utf8\<close> and \<open>base64\<close>.
\<close>

datatype decipher_result =
    SetupError string  \<comment> \<open>thrown by \<open>createDecipheriv\<close> or \<open>setAuthTag\<close>, outside the \<open>try\<close>\<close>
  | FinalError string  \<comment> \<open>thrown by \<open>update\<close> or \<open>final\<close>, inside the \<open>try\<close>\<close>
  | Plain buffer

record 'r crypto_lib =
  randomBytes :: "nat \<Rightarrow> 'r \<Rightarrow> buffer \<times> 'r"
  pbkdf2 :: "string \<Rightarrow> buffer \<Rightarrow> nat \<Rightarrow> nat \<Rightarrow> string \<Rightarrow> buffer"
  cipher :: "string \<Rightarrow> buffer \<Rightarrow> buffer \<Rightarrow> buffer \<Rightarrow> buffer \<times> buffer"
  decipher :: "string \<Rightarrow> buffer \<Rightarrow> buffer \<Rightarrow> buffer \<Rightarrow> buffer \<Rightarrow> decipher_result"
  utf8_encode :: "string \<Rightarrow> buffer"
  utf8_decode :: "buffer \<Rightarrow> string"
  base64_encode :: "buffer \<Rightarrow> string"
  base64_decode :: "string \<Rightarrow> buffer"

section \<open>\<open>crypto.js\<close>\<close>

definition ALGORITHM :: string where "ALGORITHM = ''aes-256-gcm''"
definition KEY_LENGTH :: nat where "KEY_LENGTH = 32"
definition IV_LENGTH :: nat where "IV_LENGTH = 12"
definition SALT_LENGTH :: nat where "SALT_LENGTH = 32"
definition AUTH_TAG_LENGTH :: nat where "AUTH_TAG_LENGTH = 16"
definition PBKDF2_ITERATIONS :: nat where "PBKDF2_ITERATIONS = 100000"
definition PBKDF2_DIGEST :: string where "PBKDF2_DIGEST = ''sha256''"
definition ENCRYPTED_PREFIX :: string where "ENCRYPTED_PREFIX = ''encrypted:v1:''"

definition deriveKey :: "'r crypto_lib \<Rightarrow> string \<Rightarrow> buffer \<Rightarrow> buffer" where
  "deriveKey L password salt = pbkdf2 L password salt PBKDF2_ITERATIONS KEY_LENGTH PBKDF2_DIGEST"

text \<open>\<open>isEncrypted(text)\<close>: \<open>typeof text === 'string' && text.startsWith(ENCRYPTED_PREFIX)\<close>.\<close>

fun isEncrypted :: "jv \<Rightarrow> bool" where
  "isEncrypted (JStr text) = startsWith text ENCRYPTED_PREFIX"
| "isEncrypted _ = False"

text \<open>
  \<open>encrypt(plaintext, masterPassword)\<close>. The generator state goes in and comes out; the
  two guards come first, as in the source.
\<close>

definition encrypt ::
  "'r crypto_lib \<Rightarrow> string option \<Rightarrow> string option \<Rightarrow> 'r \<Rightarrow> (error + string) \<times> 'r" where
  "encrypt L plaintext masterPassword r =
     (case (plaintext, masterPassword) of
        (Some p, Some pw) \<Rightarrow>
          if p = [] \<or> pw = [] then (Inl InvalidInput, r)
          else
            let (salt, r1) = randomBytes L SALT_LENGTH r;
                (iv, r2) = randomBytes L IV_LENGTH r1;
                key = deriveKey L pw salt;
                (encrypted, authTag) = cipher L ALGORITHM key iv (utf8_encode L p);
                combined = salt @ iv @ authTag @ encrypted
            in (Inr (ENCRYPTED_PREFIX @ base64_encode L combined), r2)
      | _ \<Rightarrow> (Inl InvalidInput, r))"

text \<open>
  \<open>decrypt(encryptedText, masterPassword)\<close>. \<open>subarray(a, b)\<close> clamps to the buffer, as
  \<open>take\<close> and \<open>drop\<close> do. An error raised inside the \<open>try\<close> becomes
  \<open>AuthenticationFailed\<close> when its message includes "Unsupported state" or "auth", and
  is rethrown otherwise.
\<close>

definition decrypt :: "'r crypto_lib \<Rightarrow> string option \<Rightarrow> string option \<Rightarrow> error + string" where
  "decrypt L encryptedText masterPassword =
     (case (encryptedText, masterPassword) of
        (Some t, Some pw) \<Rightarrow>
          if t = [] \<or> pw = [] then Inl InvalidInput
          else if \<not> isEncrypted (JStr t) then Inl NotEncrypted
          else
            let base64Data = drop (length ENCRYPTED_PREFIX) t;
                combined = base64_decode L base64Data;
                salt = take SALT_LENGTH combined;
                iv = take IV_LENGTH (drop SALT_LENGTH combined);
                authTag = take AUTH_TAG_LENGTH (drop (SALT_LENGTH + IV_LENGTH) combined);
                ciphertext = drop (SALT_LENGTH + IV_LENGTH + AUTH_TAG_LENGTH) combined;
                key = deriveKey L pw salt
            in (case decipher L ALGORITHM key iv authTag ciphertext of
                  SetupError m \<Rightarrow> Inl (LibraryError m)
                | FinalError m \<Rightarrow>
                    if includes_str m ''Unsupported state'' \<or> includes_str m ''auth''
                    then Inl AuthenticationFailed
                    else Inl (LibraryError m)
                | Plain decrypted \<Rightarrow> Inr (utf8_decode L decrypted))
      | _ \<Rightarrow> Inl InvalidInput)"

text \<open>
  \<open>decryptObject(obj, masterPassword)\<close>. \<open>Promise.all\<close> rejects with one of the
  children's errors; the model reports the first one in traversal order.
\<close>

fun decryptObject :: "'r crypto_lib \<Rightarrow> string option \<Rightarrow> jv \<Rightarrow> error + jv"
  and decryptObject_items :: "'r crypto_lib \<Rightarrow> string option \<Rightarrow> jv list \<Rightarrow> error + jv list"
  and decryptObject_entries ::
    "'r crypto_lib \<Rightarrow> string option \<Rightarrow> (string \<times> jv) list \<Rightarrow> error + (string \<times> jv) list"
where
  "decryptObject L pw JNull = Inr JNull"
| "decryptObject L pw JUndef = Inr JUndef"
| "decryptObject L pw (JStr s) =
     (if isEncrypted (JStr s)
      then (case decrypt L (Some s) pw of Inl e \<Rightarrow> Inl e | Inr p \<Rightarrow> Inr (JStr p))
      else Inr (JStr s))"
| "decryptObject L pw (JArr xs) =
     (case decryptObject_items L pw xs of Inl e \<Rightarrow> Inl e | Inr ys \<Rightarrow> Inr (JArr ys))"
| "decryptObject L pw (JObj es) =
     (case decryptObject_entries L pw es of Inl e \<Rightarrow> Inl e | Inr fs \<Rightarrow> Inr (JObj fs))"
| "decryptObject L pw (JBool b) = Inr (JBool b)"
| "decryptObject L pw (JNum n) = Inr (JNum n)"
| "decryptObject_items L pw [] = Inr []"
| "decryptObject_items L pw (x # xs) =
     (case decryptObject L pw x of
        Inl e \<Rightarrow> Inl e
      | Inr y \<Rightarrow> (case decryptObject_items L pw xs of Inl e \<Rightarrow> Inl e | Inr ys \<Rightarrow> Inr (y # ys)))"
| "decryptObject_entries L pw [] = Inr []"
| "decryptObject_entries L pw ((k, v) # es) =
     (case decryptObject L pw v of
        Inl e \<Rightarrow> Inl e
      | Inr w \<Rightarrow>
          (case decryptObject_entries L pw es of Inl e \<Rightarrow> Inl e | Inr fs \<Rightarrow> Inr ((k, w) # fs)))"

text \<open>
  The sensitivity test of \<open>encryptSensitiveFields\<close> and of \<open>listSensitiveFields\<close>: the
  seven regular expressions, in the order of the source.
\<close>

definition isSensitive :: "string \<Rightarrow> bool" where
  "isSensitive path =
     (includes_str path ''.credentials.'' \<or> endsWith path ''.credentials'' \<or>
      endsWith path ''.password'' \<or> endsWith path ''.tokenApi'' \<or>
      endsWith path ''.token'' \<or> endsWith path ''.secret'' \<or> endsWith path ''.apiKey'')"

text \<open>The two ways the source extends a path.\<close>

definition index_path :: "string \<Rightarrow> nat \<Rightarrow> string" where
  "index_path path i = path @ ''['' @ show_nat i @ '']''"

definition key_path :: "string \<Rightarrow> string \<Rightarrow> string" where
  "key_path path key = (if path \<noteq> [] then path @ ''.'' @ key else key)"

text \<open>
  \<open>encryptSensitiveFields(obj, masterPassword, path)\<close>. The synchronous part of every
  child runs in traversal order, so the generator is threaded in that order;
  \<open>Promise.all\<close> rejects with the first error.
\<close>

definition both :: "error + 'a \<Rightarrow> error + 'b \<Rightarrow> ('a \<Rightarrow> 'b \<Rightarrow> 'c) \<Rightarrow> error + 'c" where
  "both a b f =
     (case a of Inl e \<Rightarrow> Inl e | Inr x \<Rightarrow> (case b of Inl e \<Rightarrow> Inl e | Inr y \<Rightarrow> Inr (f x y)))"

fun encryptSensitiveFields ::
    "'r crypto_lib \<Rightarrow> string option \<Rightarrow> string \<Rightarrow> jv \<Rightarrow> 'r \<Rightarrow> (error + jv) \<times> 'r"
  and encryptSensitiveFields_items ::
    "'r crypto_lib \<Rightarrow> string option \<Rightarrow> string \<Rightarrow> nat \<Rightarrow> jv list \<Rightarrow> 'r \<Rightarrow> (error + jv list) \<times> 'r"
  and encryptSensitiveFields_entries ::
    "'r crypto_lib \<Rightarrow> string option \<Rightarrow> string \<Rightarrow> (string \<times> jv) list \<Rightarrow> 'r
       \<Rightarrow> (error + (string \<times> jv) list) \<times> 'r"
where
  "encryptSensitiveFields L pw path JNull r = (Inr JNull, r)"
| "encryptSensitiveFields L pw path JUndef r = (Inr JUndef, r)"
| "encryptSensitiveFields L pw path (JStr s) r =
     (if isEncrypted (JStr s) then (Inr (JStr s), r)
      else if isSensitive path \<and> trim s \<noteq> []
      then (case encrypt L (Some s) pw r of
              (Inl e, r') \<Rightarrow> (Inl e, r')
            | (Inr c, r') \<Rightarrow> (Inr (JStr c), r'))
      else (Inr (JStr s), r))"
| "encryptSensitiveFields L pw path (JArr xs) r =
     (case encryptSensitiveFields_items L pw path 0 xs r of
        (Inl e, r') \<Rightarrow> (Inl e, r')
      | (Inr ys, r') \<Rightarrow> (Inr (JArr ys), r'))"
| "encryptSensitiveFields L pw path (JObj es) r =
     (case encryptSensitiveFields_entries L pw path es r of
        (Inl e, r') \<Rightarrow> (Inl e, r')
      | (Inr fs, r') \<Rightarrow> (Inr (JObj fs), r'))"
| "encryptSensitiveFields L pw path (JBool b) r = (Inr (JBool b), r)"
| "encryptSensitiveFields L pw path (JNum n) r = (Inr (JNum n), r)"
| "encryptSensitiveFields_items L pw path i [] r = (Inr [], r)"
| "encryptSensitiveFields_items L pw path i (x # xs) r =
     (case encryptSensitiveFields L pw (index_path path i) x r of
        (y, r1) \<Rightarrow>
          (case encryptSensitiveFields_items L pw path (Suc i) xs r1 of
             (ys, r2) \<Rightarrow> (both y ys (#), r2)))"
| "encryptSensitiveFields_entries L pw path [] r = (Inr [], r)"
| "encryptSensitiveFields_entries L pw path ((k, v) # es) r =
     (case encryptSensitiveFields L pw (key_path path k) v r of
        (w, r1) \<Rightarrow>
          (case encryptSensitiveFields_entries L pw path es r1 of
             (fs, r2) \<Rightarrow> (both w fs (\<lambda>w fs. (k, w) # fs), r2)))"

section \<open>\<open>cli-encrypt.js\<close>\<close>

text \<open>
  \<open>listSensitiveFields(obj, path, fields)\<close>. The call can change two things, the document
  and the array \<open>fields\<close> (here \<open>flds\<close>); the model returns both as they are after the call.
  The source pushes the path of every string leaf that passes the test onto \<open>fields\<close>,
  and it assigns to nothing in \<open>obj\<close>.
\<close>

fun listSensitiveFields :: "jv \<Rightarrow> string \<Rightarrow> string list \<Rightarrow> jv \<times> string list"
  and listSensitiveFields_items ::
    "jv list \<Rightarrow> string \<Rightarrow> nat \<Rightarrow> string list \<Rightarrow> jv list \<times> string list"
  and listSensitiveFields_entries ::
    "(string \<times> jv) list \<Rightarrow> string \<Rightarrow> string list \<Rightarrow> (string \<times> jv) list \<times> string list"
where
  "listSensitiveFields JNull path flds = (JNull, flds)"
| "listSensitiveFields JUndef path flds = (JUndef, flds)"
| "listSensitiveFields (JStr s) path flds =
     (JStr s,
      if isSensitive path \<and> trim s \<noteq> [] \<and> \<not> isEncrypted (JStr s)
      then flds @ [path] else flds)"
| "listSensitiveFields (JArr xs) path flds =
     (case listSensitiveFields_items xs path 0 flds of (xs', flds') \<Rightarrow> (JArr xs', flds'))"
| "listSensitiveFields (JObj es) path flds =
     (case listSensitiveFields_entries es path flds of (es', flds') \<Rightarrow> (JObj es', flds'))"
| "listSensitiveFields (JBool b) path flds = (JBool b, flds)"
| "listSensitiveFields (JNum n) path flds = (JNum n, flds)"
| "listSensitiveFields_items [] path i flds = ([], flds)"
| "listSensitiveFields_items (x # xs) path i flds =
     (case listSensitiveFields x (index_path path i) flds of
        (x', flds1) \<Rightarrow>
          (case listSensitiveFields_items xs path (Suc i) flds1 of
             (xs', flds2) \<Rightarrow> (x' # xs', flds2)))"
| "listSensitiveFields_entries [] path flds = ([], flds)"
| "listSensitiveFields_entries ((k, v) # es) path flds =
     (case listSensitiveFields v (key_path path k) flds of
        (v', flds1) \<Rightarrow>
          (case listSensitiveFields_entries es path flds1 of
             (es', flds2) \<Rightarrow> ((k, v') # es', flds2)))"

section \<open>\<open>load-config.js\<close>\<close>

text \<open>
  The module \<open>load-config.js\<close> (in the source tree it is the second part of
  \<open>src/importer/scrapper.js\<close>).

  \<open>hasEncryptedValues(obj)\<close>, with \<open>Array.prototype.some\<close> over the items or the values.
\<close>

fun hasEncryptedValues :: "jv \<Rightarrow> bool"
  and hasEncryptedValues_items :: "jv list \<Rightarrow> bool"
  and hasEncryptedValues_values :: "(string \<times> jv) list \<Rightarrow> bool"
where
  "hasEncryptedValues JNull = False"
| "hasEncryptedValues JUndef = False"
| "hasEncryptedValues (JStr s) = isEncrypted (JStr s)"
| "hasEncryptedValues (JArr xs) = hasEncryptedValues_items xs"
| "hasEncryptedValues (JObj es) = hasEncryptedValues_values es"
| "hasEncryptedValues (JBool b) = False"
| "hasEncryptedValues (JNum n) = False"
| "hasEncryptedValues_items [] = False"
| "hasEncryptedValues_items (x # xs) = (hasEncryptedValues x \<or> hasEncryptedValues_items xs)"
| "hasEncryptedValues_values [] = False"
| "hasEncryptedValues_values ((k, v) # es) = (hasEncryptedValues v \<or> hasEncryptedValues_values es)"

subsection \<open>The configuration provider\<close>

text \<open>
  \<open>nconf\<close> is a library. Its provider is modelled as one in-memory document, the one
  \<open>config.get\<close> serves once the stores are set up; \<open>get\<close> and \<open>set\<close> follow nconf's memory
  store on a key already split at the colons. An array owns the property \<open>k\<close> when \<open>k\<close>
  is the decimal form of an index below its length (its \<open>length\<close> is not modelled). The
  keys the source uses are never inherited property names.
\<close>

definition array_index :: "jv list \<Rightarrow> string \<Rightarrow> nat option" where
  "array_index xs k = find (\<lambda>i. show_nat i = k) [0..<length xs]"

fun own_property :: "jv \<Rightarrow> string \<Rightarrow> jv option" where
  "own_property (JObj es) k = map_of es k"
| "own_property (JArr xs) k = map_option (\<lambda>i. xs ! i) (array_index xs k)"
| "own_property _ k = None"

definition read_property :: "jv \<Rightarrow> string \<Rightarrow> jv" where
  "read_property target k = (case own_property target k of Some v \<Rightarrow> v | None \<Rightarrow> JUndef)"

fun is_object :: "jv \<Rightarrow> bool" where
  "is_object (JArr _) = True"
| "is_object (JObj _) = True"
| "is_object _ = False"

text \<open>\<open>target[key] = value\<close>; \<open>None\<close> where the result is not a \<^typ>\<open>jv\<close>.\<close>

fun assign :: "jv \<Rightarrow> string \<Rightarrow> jv \<Rightarrow> jv option" where
  "assign (JObj es) k v = Some (JObj (AList.update k v es))"
| "assign (JArr xs) k v = map_option (\<lambda>i. JArr (xs[i := v])) (array_index xs k)"
| "assign _ k v = None"

text \<open>
  \<open>Memory.prototype.get\<close>: walk down while the target is truthy, not a string, and owns
  the next key; otherwise \<open>undefined\<close>.
\<close>

fun config_get :: "string list \<Rightarrow> jv \<Rightarrow> jv" where
  "config_get [] target = target"
| "config_get (k # ks) target =
     (case own_property target k of Some v \<Rightarrow> config_get ks v | None \<Rightarrow> JUndef)"

text \<open>
  \<open>Memory.prototype.set\<close>: on the way down, a child that is falsy or not an object is
  replaced by \<open>{}\<close>; the last key is assigned.
\<close>

fun config_set :: "string list \<Rightarrow> jv \<Rightarrow> jv \<Rightarrow> jv option" where
  "config_set [] v target = (if truthy v \<and> is_object v then Some v else Some target)"
| "config_set [k] v target = assign target k v"
| "config_set (k # k' # ks) v target =
     (let child = read_property target k;
          child' = (if \<not> truthy child \<or> \<not> is_object child then JObj [] else child)
      in case config_set (k' # ks) v child' of
           None \<Rightarrow> None
         | Some c \<Rightarrow> assign target k c)"

text \<open>\<open>config.required(keys)\<close> throws when \<open>get\<close> of a key is \<open>undefined\<close>.\<close>

definition required :: "string list list \<Rightarrow> jv \<Rightarrow> error + unit" where
  "required keys cfg =
     (let missing = filter (\<lambda>k. config_get k cfg = JUndef) keys
      in if missing \<noteq> [] then Inl (MissingRequiredConfig (map concat missing)) else Inr ())"

subsection \<open>Credential overrides from the environment\<close>

type_synonym env = "string \<Rightarrow> string option"

text \<open>\<open>if (v) config.set(key, v)\<close> for \<open>v = process.env[var]\<close>.\<close>

definition env_override :: "env \<Rightarrow> string \<Rightarrow> string list \<Rightarrow> jv \<Rightarrow> jv option" where
  "env_override env var key cfg =
     (case env var of
        Some v \<Rightarrow> if v \<noteq> [] then config_set key (JStr v) cfg else Some cfg
      | None \<Rightarrow> Some cfg)"

definition bank_var :: "nat \<Rightarrow> string \<Rightarrow> string" where
  "bank_var bankIndex field = ''BANK_'' @ show_nat bankIndex @ ''_'' @ field"

definition bank_key :: "nat \<Rightarrow> string \<Rightarrow> string list" where
  "bank_key bankIndex field = [''banks'', show_nat bankIndex, ''credentials'', field]"

definition cc_var :: "nat \<Rightarrow> nat \<Rightarrow> string \<Rightarrow> string" where
  "cc_var bankIndex ccIndex field =
     ''BANK_'' @ show_nat bankIndex @ ''_CC_'' @ show_nat ccIndex @ ''_'' @ field"

definition cc_key :: "nat \<Rightarrow> nat \<Rightarrow> string \<Rightarrow> string list" where
  "cc_key bankIndex ccIndex field =
     [''banks'', show_nat bankIndex, ''creditCards'', show_nat ccIndex, ''credentials'', field]"

definition bank_overrides :: "env \<Rightarrow> nat \<Rightarrow> jv \<Rightarrow> jv option" where
  "bank_overrides env i cfg =
     Option.bind (env_override env (bank_var i ''USERNAME'') (bank_key i ''username'') cfg) (\<lambda>c1.
     Option.bind (env_override env (bank_var i ''PASSWORD'') (bank_key i ''password'') c1) (\<lambda>c2.
     Option.bind (env_override env (bank_var i ''ID'') (bank_key i ''id'') c2) (\<lambda>c3.
     env_override env (bank_var i ''USERCODE'') (bank_key i ''userCode'') c3)))"

definition cc_overrides :: "env \<Rightarrow> nat \<Rightarrow> nat \<Rightarrow> jv \<Rightarrow> jv option" where
  "cc_overrides env i j cfg =
     Option.bind (env_override env (cc_var i j ''USERNAME'') (cc_key i j ''username'') cfg) (\<lambda>c1.
     Option.bind (env_override env (cc_var i j ''PASSWORD'') (cc_key i j ''password'') c1) (\<lambda>c2.
     Option.bind (env_override env (cc_var i j ''ID'') (cc_key i j ''id'') c2) (\<lambda>c3.
     env_override env (cc_var i j ''CARD6DIGITS'') (cc_key i j ''card6Digits'') c3)))"

text \<open>\<open>creditCards.forEach((cc, ccIndex) => ...)\<close>: only the index of an entry is used.\<close>

fun forEach_creditCards :: "env \<Rightarrow> nat \<Rightarrow> nat \<Rightarrow> jv list \<Rightarrow> jv \<Rightarrow> error + jv" where
  "forEach_creditCards env i j [] cfg = Inr cfg"
| "forEach_creditCards env i j (cc # ccs) cfg =
     (case cc_overrides env i j cfg of
        None \<Rightarrow> Inl OutsideModel
      | Some cfg' \<Rightarrow> forEach_creditCards env i (Suc j) ccs cfg')"

text \<open>
  \<open>bank.creditCards || []\<close>, then \<open>.forEach\<close>: a \<open>TypeError\<close> when \<open>bank\<close> is \<open>null\<close> or when
  the truthy \<open>creditCards\<close> is not an array.
\<close>

fun creditCards_of :: "jv \<Rightarrow> error + jv list" where
  "creditCards_of JNull = Inl TypeError"
| "creditCards_of JUndef = Inl TypeError"
| "creditCards_of (JObj es) =
     (case map_of es ''creditCards'' of
        None \<Rightarrow> Inr []
      | Some c \<Rightarrow>
          if \<not> truthy c then Inr []
          else (case c of JArr ccs \<Rightarrow> Inr ccs | _ \<Rightarrow> Inl TypeError))"
| "creditCards_of _ = Inr []"

text \<open>
  \<open>banks.forEach((bank, bankIndex) => ...)\<close>. The callback receives the entry as the
  array holds it when its turn comes; earlier turns write below other indices only.
\<close>

fun forEach_banks :: "env \<Rightarrow> nat \<Rightarrow> jv list \<Rightarrow> jv \<Rightarrow> error + jv" where
  "forEach_banks env i [] cfg = Inr cfg"
| "forEach_banks env i (bank # banks) cfg =
     (case bank_overrides env i cfg of
        None \<Rightarrow> Inl OutsideModel
      | Some cfg1 \<Rightarrow>
          (case creditCards_of bank of
             Inl e \<Rightarrow> Inl e
           | Inr ccs \<Rightarrow>
               (case forEach_creditCards env i 0 ccs cfg1 of
                  Inl e \<Rightarrow> Inl e
                | Inr cfg2 \<Rightarrow> forEach_banks env (Suc i) banks cfg2)))"

definition applyCredentialEnvOverrides :: "env \<Rightarrow> jv \<Rightarrow> error + jv" where
  "applyCredentialEnvOverrides env cfg =
     (let banks = config_get [''banks''] cfg
      in if \<not> truthy banks then Inr cfg
         else (case banks of JArr bs \<Rightarrow> forEach_banks env 0 bs cfg | _ \<Rightarrow> Inl TypeError))"

subsection \<open>Decryption of the loaded document\<close>

definition decryptBanksConfig :: "'r crypto_lib \<Rightarrow> string option \<Rightarrow> jv \<Rightarrow> error + jv" where
  "decryptBanksConfig L masterPassword cfg =
     (let banks = config_get [''banks''] cfg
      in if \<not> truthy banks then Inr cfg
         else (case decryptObject L masterPassword banks of
                 Inl e \<Rightarrow> Inl e
               | Inr decryptedBanks \<Rightarrow>
                   (case config_set [''banks''] decryptedBanks cfg of
                      None \<Rightarrow> Inl OutsideModel
                    | Some cfg' \<Rightarrow> Inr cfg')))"

definition decryptFireflyConfig :: "'r crypto_lib \<Rightarrow> string option \<Rightarrow> jv \<Rightarrow> error + jv" where
  "decryptFireflyConfig L masterPassword cfg =
     (let tokenApi = config_get [''firefly'', ''tokenApi''] cfg
      in if truthy tokenApi \<and> isEncrypted tokenApi
         then (case decryptObject L masterPassword tokenApi of
                 Inl e \<Rightarrow> Inl e
               | Inr decrypted \<Rightarrow>
                   (case config_set [''firefly'', ''tokenApi''] decrypted cfg of
                      None \<Rightarrow> Inl OutsideModel
                    | Some cfg' \<Rightarrow> Inr cfg'))
         else Inr cfg)"

text \<open>
  The last part of \<open>loadConfig\<close>, from "Check if decryption is needed" to the end: the
  test, the master password from the environment, and the two decryptions inside the
  \<open>try\<close>.
\<close>

definition decryptionPhase :: "'r crypto_lib \<Rightarrow> env \<Rightarrow> jv \<Rightarrow> error + jv" where
  "decryptionPhase L env cfg =
     (let banks = config_get [''banks''] cfg;
          tokenApi = config_get [''firefly'', ''tokenApi''] cfg;
          needsDecryption = (hasEncryptedValues banks \<or> isEncrypted tokenApi)
      in if needsDecryption
         then
           (let masterPassword = env ''MASTER_PASSWORD''
            in if falsy_str masterPassword then Inl MasterSecretRequired
               else (case decryptBanksConfig L masterPassword cfg of
                       Inl e \<Rightarrow> Inl (DecryptionFailed e)
                     | Inr cfg1 \<Rightarrow>
                         (case decryptFireflyConfig L masterPassword cfg1 of
                            Inl e \<Rightarrow> Inl (DecryptionFailed e)
                          | Inr cfg2 \<Rightarrow> Inr cfg2)))
         else Inr cfg)"

text \<open>
  \<open>loadConfig\<close> from \<open>config.required\<close> on. The argument \<open>cfg\<close> is the document the
  provider serves after the stores (environment, file, defaults, overrides) are in
  place; the result is the document it serves when \<open>loadConfig\<close> returns.
\<close>

definition required_keys :: "string list list" where
  "required_keys = [[''firefly''], [''firefly'', ''baseUrl''], [''firefly'', ''tokenApi''], [''banks'']]"

definition loadConfig :: "'r crypto_lib \<Rightarrow> env \<Rightarrow> jv \<Rightarrow> error + jv" where
  "loadConfig L env cfg =
     (case required required_keys cfg of
        Inl e \<Rightarrow> Inl e
      | Inr _ \<Rightarrow>
          (case applyCredentialEnvOverrides env cfg of
             Inl e \<Rightarrow> Inl e
           | Inr cfg1 \<Rightarrow> decryptionPhase L env cfg1))"

section \<open>Vocabulary for the resolver\<close>

text \<open>Two keys part when, after a common beginning, they go on with different names.\<close>

fun parts_from :: "string list \<Rightarrow> string list \<Rightarrow> bool" where
  "parts_from (a # p) (b # q) = (if a = b then parts_from p q else True)"
| "parts_from _ _ = False"

section \<open>What the library is expected to do\<close>

text \<open>
  The contracts of the primitives, as far as the properties below need them:
  \<open>randomBytes\<close> returns the 32 and the 12 bytes asked for, \<open>pbkdf2\<close> as \<open>deriveKey\<close> calls
  it returns 32 bytes, \<open>base64\<close> decoding undoes encoding, \<open>utf8\<close> decoding undoes
  encoding for a well-formed string, and \<open>aes-256-gcm\<close> under a 32-byte key and a
  12-byte nonce produces a 16-byte tag with which the same key deciphers the data.
\<close>

definition random_ok :: "'r crypto_lib \<Rightarrow> bool" where
  "random_ok L =
     (\<forall>r. length (fst (randomBytes L SALT_LENGTH r)) = SALT_LENGTH \<and>
          length (fst (randomBytes L IV_LENGTH r)) = IV_LENGTH)"

definition kdf_ok :: "'r crypto_lib \<Rightarrow> bool" where
  "kdf_ok L = (\<forall>pw salt. length (deriveKey L pw salt) = KEY_LENGTH)"

definition base64_ok :: "'r crypto_lib \<Rightarrow> bool" where
  "base64_ok L = (\<forall>b. base64_decode L (base64_encode L b) = b)"

definition utf8_ok :: "'r crypto_lib \<Rightarrow> bool" where
  "utf8_ok L = (\<forall>s. well_formed s \<longrightarrow> utf8_decode L (utf8_encode L s) = s)"

definition sealed_by :: "'r crypto_lib \<Rightarrow> buffer \<Rightarrow> buffer \<Rightarrow> buffer \<Rightarrow> bool" where
  "sealed_by L key iv data =
     (case cipher L ALGORITHM key iv data of
        (encrypted, authTag) \<Rightarrow>
          length authTag = AUTH_TAG_LENGTH \<and>
          decipher L ALGORITHM key iv authTag encrypted = Plain data)"

definition aead_ok :: "'r crypto_lib \<Rightarrow> bool" where
  "aead_ok L =
     (\<forall>key iv data. length key = KEY_LENGTH \<and> length iv = IV_LENGTH \<longrightarrow> sealed_by L key iv data)"

text \<open>
  A tag that does not verify: \<open>final\<close> throws the error of \<open>node:crypto\<close>.
  \<open>rejected_by L key key' iv data\<close> says that this is what happens when what \<open>key\<close> has
  sealed is opened with \<open>key'\<close>. PBKDF2 does not give every two secrets different keys:
  HMAC, on which it is built, pads a key shorter than its block with zero bytes, so a
  password and the same password followed by NUL bytes derive the same key.
\<close>

definition auth_message :: string where
  "auth_message = ''Unsupported state or unable to authenticate data''"

definition rejected_by :: "'r crypto_lib \<Rightarrow> buffer \<Rightarrow> buffer \<Rightarrow> buffer \<Rightarrow> buffer \<Rightarrow> bool" where
  "rejected_by L key key' iv data =
     (case cipher L ALGORITHM key iv data of
        (encrypted, authTag) \<Rightarrow>
          decipher L ALGORITHM key' iv authTag encrypted = FinalError auth_message)"

section \<open>A small instance of the library\<close>

text \<open>
  To run the model on concrete inputs the primitives need values. This instance is not
  AES-GCM: it writes the key in front of the data (after its length in unary), uses a
  constant tag, and opens a ciphertext only for the key written in it. Its generator
  state counts the draws, each draw is a run of one byte, and \<open>base64\<close> is the identity.
  Its \<open>utf8\<close> encoding replaces each lone surrogate by U+FFFD, as \<open>Buffer\<close> does, and
  its decoding is the identity. Its key derivation pads the password with zero bytes,
  as HMAC pads a short key, and cuts it to \<open>keylen\<close> bytes.
\<close>

definition toy_seal :: "buffer \<Rightarrow> buffer \<Rightarrow> buffer" where
  "toy_seal key data = replicate (length key) (CHR ''k'') @ CHR '':'' # key @ data"

definition toy_open :: "buffer \<Rightarrow> buffer \<Rightarrow> buffer \<Rightarrow> decipher_result" where
  "toy_open key authTag encrypted =
     (let n = length (takeWhile (\<lambda>c. c = CHR ''k'') encrypted);
          rest = drop (Suc n) encrypted
      in if length authTag = 16 \<and> n = length key \<and> take n rest = key \<and> n < length encrypted
         then Plain (drop n rest)
         else FinalError ''Unsupported state or unable to authenticate data'')"

definition toy_lib :: "nat crypto_lib" where
  "toy_lib =
     \<lparr> randomBytes = (\<lambda>n r. (replicate n (CHR ''r''), Suc r)),
       pbkdf2 = (\<lambda>pw salt iters n digest. take n (pw @ replicate n (CHR 0x00))),
       cipher = (\<lambda>alg key iv data. (toy_seal key data, replicate 16 (CHR ''t''))),
       decipher = (\<lambda>alg key iv authTag encrypted. toy_open key authTag encrypted),
       utf8_encode = replace_lone_surrogates,
       utf8_decode = (\<lambda>b. b),
       base64_encode = (\<lambda>b. b),
       base64_decode = (\<lambda>s. s) \<rparr>"

text \<open>
  What follows the prefix in the envelope this instance makes of the bytes \<open>p\<close> under
  \<open>pw\<close>.
\<close>

definition toy_envelope :: "string \<Rightarrow> string \<Rightarrow> string" where
  "toy_envelope p pw =
     replicate SALT_LENGTH (CHR ''r'') @ replicate IV_LENGTH (CHR ''r'') @ replicate 16 (CHR ''t'') @
     toy_seal (deriveKey toy_lib pw (replicate SALT_LENGTH (CHR ''r''))) p"

text \<open>A secret that ends with a NUL character, and the lone surrogate U+D800 as a plaintext.\<close>

definition lone_d800 :: string where
  "lone_d800 = [CHR 0xED, CHR 0xA0, CHR 0x80]"

definition replacement_fffd :: string where
  "replacement_fffd = [CHR 0xEF, CHR 0xBF, CHR 0xBD]"


definition password_nul :: string where
  "password_nul = ''password'' @ [CHR 0x00]"

section \<open>Vocabulary for the tree codec\<close>

text \<open>
  The string leaves of a document, each with the path the traversals of \<open>crypto.js\<close> and
  \<open>cli-encrypt.js\<close> give it, in traversal order.
\<close>

fun string_leaves :: "jv \<Rightarrow> string \<Rightarrow> (string \<times> string) list"
  and string_leaves_items :: "jv list \<Rightarrow> string \<Rightarrow> nat \<Rightarrow> (string \<times> string) list"
  and string_leaves_entries :: "(string \<times> jv) list \<Rightarrow> string \<Rightarrow> (string \<times> string) list"
where
  "string_leaves (JStr s) path = [(path, s)]"
| "string_leaves (JArr xs) path = string_leaves_items xs path 0"
| "string_leaves (JObj es) path = string_leaves_entries es path"
| "string_leaves JNull path = []"
| "string_leaves JUndef path = []"
| "string_leaves (JBool b) path = []"
| "string_leaves (JNum n) path = []"
| "string_leaves_items [] path i = []"
| "string_leaves_items (x # xs) path i =
     string_leaves x (index_path path i) @ string_leaves_items xs path (Suc i)"
| "string_leaves_entries [] path = []"
| "string_leaves_entries ((k, v) # es) path =
     string_leaves v (key_path path k) @ string_leaves_entries es path"

text \<open>
  The rule of the specification for a string leaf \<open>s\<close> at \<open>path\<close>: the path matches the
  sensitivity predicate, the leaf is non-empty after trimming, and it is not already
  encrypted.
\<close>

definition to_encrypt :: "string \<Rightarrow> string \<Rightarrow> bool" where
  "to_encrypt path s = (isSensitive path \<and> trim s \<noteq> [] \<and> \<not> isEncrypted (JStr s))"

text \<open>
  A leaf \<open>(path, s)\<close> and what a pass under the secret \<open>pw\<close> made of it: when the rule asks
  for encryption, an envelope that \<open>encrypt\<close> returns for \<open>s\<close> and \<open>pw\<close>; the same string
  otherwise.
\<close>

definition leaf_rewritten ::
  "'r crypto_lib \<Rightarrow> string option \<Rightarrow> string \<times> string \<Rightarrow> string \<times> string \<Rightarrow> bool" where
  "leaf_rewritten L pw a b =
     (fst b = fst a \<and>
      (if to_encrypt (fst a) (snd a)
       then (\<exists>r r'. encrypt L (Some (snd a)) pw r = (Inr (snd b), r'))
       else snd b = snd a))"

text \<open>A document with every string leaf blanked: its shape and its other values.\<close>

fun blank_strings :: "jv \<Rightarrow> jv" where
  "blank_strings (JStr s) = JStr []"
| "blank_strings (JArr xs) = JArr (map blank_strings xs)"
| "blank_strings (JObj es) = JObj (map (\<lambda>(k, v). (k, blank_strings v)) es)"
| "blank_strings v = v"

text \<open>The paths at which the string leaf of \<open>d'\<close> differs from the one of \<open>d\<close>.\<close>

definition replaced_paths :: "jv \<Rightarrow> jv \<Rightarrow> string \<Rightarrow> string list" where
  "replaced_paths d d' path =
     map (\<lambda>(a, b). fst a)
       (filter (\<lambda>(a, b). snd b \<noteq> snd a) (zip (string_leaves d path) (string_leaves d' path)))"

text \<open>The document of the path-targeting example.\<close>

definition example_document :: jv where
  "example_document =
     JObj [(''credentials'', JObj [(''username'', JStr ''u''), (''password'', JStr ''p'')]),
           (''name'', JStr ''n'')]"

text \<open>What the library instance makes of it under the secret \<open>secret\<close>.\<close>

definition example_encrypted :: jv where
  "example_encrypted =
     JObj [(''credentials'',
            JObj [(''username'', JStr ''u''),
                  (''password'', JStr (ENCRYPTED_PREFIX @ toy_envelope ''p'' ''secret''))]),
           (''name'', JStr ''n'')]"

section \<open>Example configurations\<close>

text \<open>
  A configuration in the documented layout, and the same with envelopes of the library
  instance: \<open>config_outside\<close> has one at \<open>firefly.baseUrl\<close> only, \<open>config_sealed\<close> has one
  there and one at \<open>banks[0].credentials.password\<close>; \<open>config_opened\<close> is \<open>config_sealed\<close>
  after the decryption phase.
\<close>

definition example_banks :: "string \<Rightarrow> jv" where
  "example_banks password =
     JArr [JObj [(''type'', JStr ''leumi''),
                 (''credentials'', JObj [(''username'', JStr ''user''), (''password'', JStr password)]),
                 (''creditCards'',
                  JArr [JObj [(''type'', JStr ''isracard''),
                              (''credentials'', JObj [(''id'', JStr ''123''), (''password'', JStr ''ccfile'')])]])]]"

definition example_config :: jv where
  "example_config =
     JObj [(''firefly'', JObj [(''baseUrl'', JStr ''http://firefly''), (''tokenApi'', JStr ''token'')]),
           (''banks'', example_banks ''fileval'')]"

definition config_outside :: jv where
  "config_outside =
     JObj [(''firefly'',
            JObj [(''baseUrl'', JStr (ENCRYPTED_PREFIX @ toy_envelope ''http://firefly'' ''secret'')),
                  (''tokenApi'', JStr ''token'')]),
           (''banks'', example_banks ''fileval'')]"

definition config_sealed :: jv where
  "config_sealed =
     JObj [(''firefly'',
            JObj [(''baseUrl'', JStr (ENCRYPTED_PREFIX @ toy_envelope ''http://firefly'' ''secret'')),
                  (''tokenApi'', JStr ''token'')]),
           (''banks'', example_banks (ENCRYPTED_PREFIX @ toy_envelope ''fileval'' ''secret''))]"

definition config_opened :: jv where
  "config_opened =
     JObj [(''firefly'',
            JObj [(''baseUrl'', JStr (ENCRYPTED_PREFIX @ toy_envelope ''http://firefly'' ''secret'')),
                  (''tokenApi'', JStr ''token'')]),
           (''banks'', example_banks ''fileval'')]"

text \<open>
  \<open>example_config\<close> after \<open>encryptSensitiveFields\<close> under the secret \<open>secret\<close> with the library
  instance, and the document of the end-to-end example of the specification.
\<close>

definition config_encrypted :: jv where
  "config_encrypted =
     JObj [(''firefly'',
            JObj [(''baseUrl'', JStr ''http://firefly''),
                  (''tokenApi'', JStr (ENCRYPTED_PREFIX @ toy_envelope ''token'' ''secret''))]),
           (''banks'',
            JArr [JObj [(''type'', JStr ''leumi''),
                        (''credentials'',
                         JObj [(''username'', JStr (ENCRYPTED_PREFIX @ toy_envelope ''user'' ''secret'')),
                               (''password'', JStr (ENCRYPTED_PREFIX @ toy_envelope ''fileval'' ''secret''))]),
                        (''creditCards'',
                         JArr [JObj [(''type'', JStr ''isracard''),
                                     (''credentials'',
                                      JObj [(''id'', JStr (ENCRYPTED_PREFIX @ toy_envelope ''123'' ''secret'')),
                                            (''password'',
                                             JStr (ENCRYPTED_PREFIX @ toy_envelope ''ccfile'' ''secret''))])]])]])]"

definition example_token :: jv where
  "example_token = JObj [(''tokenApi'', JStr ''abc123'')]"

text \<open>Environments: nothing set, and single variables set.\<close>

definition env_none :: env where
  "env_none = (\<lambda>var. None)"

definition env_master :: env where
  "env_master = (\<lambda>var. if var = ''MASTER_PASSWORD'' then Some ''secret'' else None)"

definition env_empty_password :: env where
  "env_empty_password = (\<lambda>var. if var = ''BANK_0_PASSWORD'' then Some [] else None)"

definition env_passwords :: env where
  "env_passwords =
     (\<lambda>var. if var = ''BANK_0_PASSWORD'' then Some ''envval''
            else if var = ''BANK_0_CC_0_PASSWORD'' then Some ''ccenv'' else None)"

definition config_overridden :: jv where
  "config_overridden =
     JObj [(''firefly'', JObj [(''baseUrl'', JStr ''http://firefly''), (''tokenApi'', JStr ''token'')]),
           (''banks'',
            JArr [JObj [(''type'', JStr ''leumi''),
                        (''credentials'', JObj [(''username'', JStr ''user''), (''password'', JStr ''envval'')]),
                        (''creditCards'',
                         JArr [JObj [(''type'', JStr ''isracard''),
                                     (''credentials'',
                                      JObj [(''id'', JStr ''123''), (''password'', JStr ''ccenv'')])]])]])]"

section \<open>Properties of the library instance\<close>

lemma toy_random_ok: "random_ok toy_lib"
  by (simp add: random_ok_def toy_lib_def)

lemma toy_kdf_ok: "kdf_ok toy_lib"
  by (auto simp add: kdf_ok_def deriveKey_def toy_lib_def)

lemma toy_base64_ok: "base64_ok toy_lib"
  by (simp add: base64_ok_def toy_lib_def)

lemma replace_none:
  "\<not> lone_surrogate s \<Longrightarrow> replace_lone_surrogates s = s"
  by (induction s rule: replace_lone_surrogates.induct) auto

text \<open>A well-formed string has no lone surrogate: \<open>ED\<close> is only ever a lead byte.\<close>

lemma lone_surrogate_Cons:
  assumes "of_char a \<noteq> (0xED :: nat)"
  shows "lone_surrogate (a # cs) = lone_surrogate cs"
  using assms by (cases cs) (auto simp: surrogate_lead_def)

lemma lone_surrogate_single [simp]: "\<not> lone_surrogate [a]"
  by simp

lemma well_formed_no_lone_surrogate:
  "utf8_valid False s \<Longrightarrow> \<not> lone_surrogate s"
proof (induction "False" s rule: utf8_valid.induct)
  case 1
  then show ?case by simp
next
  case (2 a)
  then show ?case by simp
next
  case (3 a b)
  then show ?case
    by (auto simp: surrogate_lead_def split: if_splits)
next
  case (4 a b c)
  then show ?case
    by (auto simp: surrogate_lead_def continuation_def second_of_three_def Let_def
        split: if_splits)
next
  case (5 a b c d cs)
  then show ?case
    by (auto simp: surrogate_lead_def lone_surrogate_Cons continuation_def second_of_three_def
        second_of_four_def Let_def split: if_splits)
qed

lemma toy_utf8_ok: "utf8_ok toy_lib"
  by (simp add: utf8_ok_def well_formed_def toy_lib_def replace_none well_formed_no_lone_surrogate)

lemma takeWhile_k:
  "takeWhile (\<lambda>c. c = CHR ''k'') (replicate n (CHR ''k'') @ CHR '':'' # xs) = replicate n (CHR ''k'')"
  by (induction n) auto

lemma toy_open_seal:
  "toy_open key' tag (toy_seal key data) =
     (if length tag = 16 \<and> key' = key then Plain data
      else FinalError ''Unsupported state or unable to authenticate data'')"
  by (auto simp: toy_open_def toy_seal_def takeWhile_k Let_def)

lemma toy_aead_ok: "aead_ok toy_lib"
  by (simp add: aead_ok_def sealed_by_def toy_lib_def toy_open_seal AUTH_TAG_LENGTH_def)

lemma toy_rejected:
  assumes "key' \<noteq> key"
  shows "rejected_by toy_lib key key' iv data"
  using assms by (simp add: rejected_by_def toy_lib_def toy_open_seal auth_message_def)

lemma pad_nul:
  assumes "length pw < n"
  shows "take n ((pw @ [c]) @ replicate n c) = take n (pw @ replicate n c)"
proof -
  have r: "c # replicate n c = replicate (Suc n) c" by simp
  have "take (n - length pw) (c # replicate n c) = replicate (n - length pw) c"
    unfolding r using assms by (simp only: take_replicate) (simp add: min_def)
  then show ?thesis
    using assms by (simp add: min_def)
qed

text \<open>In the instance, as with HMAC, a short password and the same followed by NUL derive one key.\<close>

lemma toy_nul_same_key:
  assumes "length pw < KEY_LENGTH"
  shows "deriveKey toy_lib (pw @ [CHR 0x00]) salt = deriveKey toy_lib pw salt"
proof -
  have "deriveKey toy_lib (pw @ [CHR 0x00]) salt =
        take KEY_LENGTH ((pw @ [CHR 0x00]) @ replicate KEY_LENGTH (CHR 0x00))"
    by (simp only: deriveKey_def toy_lib_def crypto_lib.select_convs)
  also have "\<dots> = take KEY_LENGTH (pw @ replicate KEY_LENGTH (CHR 0x00))"
    by (rule pad_nul [OF assms])
  also have "\<dots> = deriveKey toy_lib pw salt"
    by (simp only: deriveKey_def toy_lib_def crypto_lib.select_convs)
  finally show ?thesis .
qed

lemma toy_separates:
  "deriveKey toy_lib ''wrong-secret'' salt \<noteq> deriveKey toy_lib ''correct-horse-battery'' salt"
  by (simp add: deriveKey_def toy_lib_def KEY_LENGTH_def)

section \<open>The cipher engine\<close>

lemma startsWith_append [simp]: "startsWith (p @ s) p"
  by (simp add: startsWith_def)

lemma prefix_nonempty [simp]: "ENCRYPTED_PREFIX \<noteq> []"
  by (simp add: ENCRYPTED_PREFIX_def)

text \<open>The envelope \<open>encrypt\<close> builds, and what \<open>decrypt\<close> does with an envelope of that form.\<close>

lemma encrypt_value:
  assumes "p \<noteq> []" and "pw \<noteq> []"
  shows "encrypt L (Some p) (Some pw) r =
           (let (salt, r1) = randomBytes L SALT_LENGTH r;
                (iv, r2) = randomBytes L IV_LENGTH r1;
                (encrypted, authTag) = cipher L ALGORITHM (deriveKey L pw salt) iv (utf8_encode L p)
            in (Inr (ENCRYPTED_PREFIX @ base64_encode L (salt @ iv @ authTag @ encrypted)), r2))"
  using assms by (simp add: encrypt_def Let_def split: prod.splits)

lemma decrypt_envelope:
  assumes "pw \<noteq> []" and "base64_ok L"
    and "length salt = SALT_LENGTH" and "length iv = IV_LENGTH"
    and "length authTag = AUTH_TAG_LENGTH"
  shows "decrypt L (Some (ENCRYPTED_PREFIX @ base64_encode L (salt @ iv @ authTag @ encrypted)))
             (Some pw) =
           (case decipher L ALGORITHM (deriveKey L pw salt) iv authTag encrypted of
              SetupError m \<Rightarrow> Inl (LibraryError m)
            | FinalError m \<Rightarrow>
                if includes_str m ''Unsupported state'' \<or> includes_str m ''auth''
                then Inl AuthenticationFailed else Inl (LibraryError m)
            | Plain decrypted \<Rightarrow> Inr (utf8_decode L decrypted))"
proof -
  have b: "base64_decode L (base64_encode L (salt @ iv @ authTag @ encrypted)) =
             salt @ iv @ authTag @ encrypted"
    using assms(2) by (simp add: base64_ok_def)
  show ?thesis
    using assms(1,3,4,5) by (simp add: decrypt_def b Let_def)
qed

lemma encrypt_Inr_encrypted:
  assumes "encrypt L p pw r = (Inr c, r')"
  shows "isEncrypted (JStr c)"
  using assms
  by (auto simp: encrypt_def Let_def split: option.splits if_splits prod.splits)

lemma toy_encrypt:
  assumes "p \<noteq> []" and "pw \<noteq> []"
  shows "encrypt toy_lib (Some p) (Some pw) r =
           (Inr (ENCRYPTED_PREFIX @ toy_envelope (replace_lone_surrogates p) pw), Suc (Suc r))"
  using assms by (simp add: encrypt_value) (simp add: toy_lib_def toy_envelope_def deriveKey_def)

lemma toy_decrypt_same_key:
  assumes "pw' \<noteq> []"
    and "deriveKey toy_lib pw' (replicate SALT_LENGTH (CHR ''r'')) =
         deriveKey toy_lib pw (replicate SALT_LENGTH (CHR ''r''))"
  shows "decrypt toy_lib (Some (ENCRYPTED_PREFIX @ toy_envelope p pw)) (Some pw') = Inr p"
proof -
  let ?salt = "replicate SALT_LENGTH (CHR ''r'')"
  let ?iv = "replicate IV_LENGTH (CHR ''r'')"
  let ?tag = "replicate 16 (CHR ''t'')"
  let ?ct = "toy_seal (deriveKey toy_lib pw ?salt) p"
  have e: "toy_envelope p pw = base64_encode toy_lib (?salt @ ?iv @ ?tag @ ?ct)"
    by (simp add: toy_envelope_def toy_lib_def)
  have "decipher toy_lib ALGORITHM (deriveKey toy_lib pw' ?salt) ?iv ?tag ?ct = Plain p"
    by (simp add: assms(2)) (simp add: toy_lib_def toy_open_seal)
  then have "decrypt toy_lib (Some (ENCRYPTED_PREFIX @ base64_encode toy_lib (?salt @ ?iv @ ?tag @ ?ct)))
          (Some pw') = Inr p"
    using assms(1) toy_base64_ok
    by (subst decrypt_envelope) (simp_all add: AUTH_TAG_LENGTH_def, simp add: toy_lib_def)
  then show ?thesis
    by (simp only: e)
qed

lemma toy_decrypt:
  assumes "pw \<noteq> []"
  shows "decrypt toy_lib (Some (ENCRYPTED_PREFIX @ toy_envelope p pw)) (Some pw) = Inr p"
  using assms by (simp add: toy_decrypt_same_key)

text \<open>
  C1, as stated: for every non-empty plaintext \<open>p\<close>, \<open>decrypt\<close> of \<open>encrypt\<close> of \<open>p\<close> would return
  \<open>p\<close>. For the plaintext that is the lone surrogate U+D800, \<open>cipher.update(plaintext,
  'utf8')\<close> encrypts the bytes of U+FFFD, and \<open>decrypt\<close> returns U+FFFD.
\<close>

theorem decrypt_encrypt_roundtrip_counterexample:
  "lone_d800 \<noteq> [] \<and> js_string lone_d800 \<and> lone_surrogate lone_d800 \<and>
   encrypt toy_lib (Some lone_d800) (Some ''secret'') 0 =
     (Inr (ENCRYPTED_PREFIX @ toy_envelope replacement_fffd ''secret''), 2) \<and>
   decrypt toy_lib (Some (ENCRYPTED_PREFIX @ toy_envelope replacement_fffd ''secret''))
     (Some ''secret'') = Inr replacement_fffd \<and>
   replacement_fffd \<noteq> lone_d800"
proof -
  have r: "replace_lone_surrogates lone_d800 = replacement_fffd"
    by (simp add: lone_d800_def replacement_fffd_def surrogate_lead_def)
  have n: "lone_d800 \<noteq> []" "replacement_fffd \<noteq> lone_d800" "lone_surrogate lone_d800"
    "js_string lone_d800"
    by (simp_all add: lone_d800_def replacement_fffd_def surrogate_lead_def js_string_def
        second_of_three_def continuation_def)
  show ?thesis
    using n by (simp add: toy_encrypt toy_decrypt r)
qed

text \<open>
  C1, amended: for a non-empty plaintext \<open>p\<close> that is well formed, a string without a lone
  surrogate, and a non-empty secret \<open>s\<close>, whatever the generator draws, \<open>encrypt\<close> returns an envelope and \<open>decrypt\<close> of
  that envelope under \<open>s\<close> succeeds and returns exactly \<open>p\<close>, given a library that keeps
  its contracts.
\<close>

theorem decrypt_encrypt_roundtrip:
  assumes "random_ok L" and "kdf_ok L" and "base64_ok L" and "utf8_ok L" and "aead_ok L"
    and "p \<noteq> []" and "s \<noteq> []" and "well_formed p"
  shows "\<exists>e r'. encrypt L (Some p) (Some s) r = (Inr e, r') \<and> decrypt L (Some e) (Some s) = Inr p"
proof -
  obtain salt r1 where d1: "randomBytes L SALT_LENGTH r = (salt, r1)" by force
  obtain iv r2 where d2: "randomBytes L IV_LENGTH r1 = (iv, r2)" by force
  obtain encrypted authTag where
    c: "cipher L ALGORITHM (deriveKey L s salt) iv (utf8_encode L p) = (encrypted, authTag)"
    by force
  have ls: "length salt = SALT_LENGTH"
    using assms(1) d1 by (metis random_ok_def fst_conv)
  have li: "length iv = IV_LENGTH"
    using assms(1) d2 by (metis random_ok_def fst_conv)
  have lk: "length (deriveKey L s salt) = KEY_LENGTH"
    using assms(2) by (simp add: kdf_ok_def)
  have "sealed_by L (deriveKey L s salt) iv (utf8_encode L p)"
    using assms(5) lk li by (simp add: aead_ok_def)
  then have lt: "length authTag = AUTH_TAG_LENGTH"
    and op: "decipher L ALGORITHM (deriveKey L s salt) iv authTag encrypted = Plain (utf8_encode L p)"
    using c by (simp_all add: sealed_by_def)
  have u: "utf8_decode L (utf8_encode L p) = p"
    using assms(4,8) by (simp add: utf8_ok_def)
  have e: "encrypt L (Some p) (Some s) r =
             (Inr (ENCRYPTED_PREFIX @ base64_encode L (salt @ iv @ authTag @ encrypted)), r2)"
    using assms(6,7) d1 d2 c by (simp add: encrypt_value)
  have "decrypt L (Some (ENCRYPTED_PREFIX @ base64_encode L (salt @ iv @ authTag @ encrypted)))
          (Some s) = Inr p"
    using assms(3,7) ls li lt op u by (simp add: decrypt_envelope)
  with e show ?thesis by blast
qed

theorem decrypt_encrypt_roundtrip_witness:
  "well_formed ''abc123'' \<and>
   (\<exists>e r'. encrypt toy_lib (Some ''abc123'') (Some ''correct-horse-battery'') 0 = (Inr e, r') \<and>
      decrypt toy_lib (Some e) (Some ''correct-horse-battery'') = Inr ''abc123'')"
  using decrypt_encrypt_roundtrip
    [OF toy_random_ok toy_kdf_ok toy_base64_ok toy_utf8_ok toy_aead_ok,
      of "''abc123''" "''correct-horse-battery''" 0]
  by (simp add: well_formed_def)

text \<open>
  C6, as stated: for every two distinct non-empty secrets, \<open>decrypt\<close> under the second of
  what \<open>encrypt\<close> produced under the first would fail with \<open>AuthenticationFailed\<close>. When
  the key derivation gives both secrets the same key, as it does for a password and the
  same password followed by NUL, \<open>decrypt\<close> returns the plaintext.
\<close>

theorem decrypt_wrong_secret_counterexample:
  "password_nul \<noteq> ''password'' \<and>
   encrypt toy_lib (Some ''abc123'') (Some password_nul) 0 =
     (Inr (ENCRYPTED_PREFIX @ toy_envelope ''abc123'' password_nul), 2) \<and>
   decrypt toy_lib (Some (ENCRYPTED_PREFIX @ toy_envelope ''abc123'' password_nul))
     (Some ''password'') = Inr ''abc123''"
proof -
  have k: "deriveKey toy_lib ''password'' salt = deriveKey toy_lib password_nul salt" for salt
    unfolding password_nul_def
    by (rule toy_nul_same_key [symmetric]) (simp add: KEY_LENGTH_def)
  have n: "password_nul \<noteq> []" "password_nul \<noteq> ''password''"
    by (simp_all add: password_nul_def)
  show ?thesis
    using n by (simp add: toy_encrypt toy_decrypt_same_key k surrogate_lead_def)
qed

text \<open>
  C6, amended: let \<open>salt\<close> and \<open>iv\<close> be what the generator draws for the envelope that
  \<open>encrypt\<close> makes of a non-empty plaintext under a non-empty secret \<open>s1\<close>, and let \<open>s2\<close> be
  a non-empty secret. When aes-256-gcm does not verify the tag under the key that \<open>s2\<close>
  derives from \<open>salt\<close>, \<open>decrypt\<close> of the envelope under \<open>s2\<close> fails with
  \<open>AuthenticationFailed\<close>, an error that carries no plaintext. When \<open>s2\<close> derives the same
  key as \<open>s1\<close>, \<open>decrypt\<close> returns what the \<open>utf8\<close> decoding makes of the encoded
  plaintext.
\<close>

theorem decrypt_wrong_secret:
  assumes "random_ok L" and "kdf_ok L" and "base64_ok L" and "aead_ok L"
    and "p \<noteq> []" and "s1 \<noteq> []" and "s2 \<noteq> []"
    and "randomBytes L SALT_LENGTH r = (salt, r1)" and "randomBytes L IV_LENGTH r1 = (iv, r2)"
  shows "\<exists>e. encrypt L (Some p) (Some s1) r = (Inr e, r2) \<and>
           (rejected_by L (deriveKey L s1 salt) (deriveKey L s2 salt) iv (utf8_encode L p) \<longrightarrow>
              decrypt L (Some e) (Some s2) = Inl AuthenticationFailed) \<and>
           (deriveKey L s2 salt = deriveKey L s1 salt \<longrightarrow>
              decrypt L (Some e) (Some s2) = Inr (utf8_decode L (utf8_encode L p)))"
proof -
  obtain encrypted authTag where
    c: "cipher L ALGORITHM (deriveKey L s1 salt) iv (utf8_encode L p) = (encrypted, authTag)"
    by force
  have ls: "length salt = SALT_LENGTH"
    using assms(1,8) by (metis random_ok_def fst_conv)
  have li: "length iv = IV_LENGTH"
    using assms(1,9) by (metis random_ok_def fst_conv)
  have lk: "length (deriveKey L s1 salt) = KEY_LENGTH"
    using assms(2) by (simp add: kdf_ok_def)
  have "sealed_by L (deriveKey L s1 salt) iv (utf8_encode L p)"
    using assms(4) lk li by (simp add: aead_ok_def)
  then have lt: "length authTag = AUTH_TAG_LENGTH"
    and op: "decipher L ALGORITHM (deriveKey L s1 salt) iv authTag encrypted = Plain (utf8_encode L p)"
    using c by (simp_all add: sealed_by_def)
  let ?e = "ENCRYPTED_PREFIX @ base64_encode L (salt @ iv @ authTag @ encrypted)"
  have e: "encrypt L (Some p) (Some s1) r = (Inr ?e, r2)"
    using assms(5,6,8,9) c by (simp add: encrypt_value)
  have m: "includes_str auth_message ''auth''"
    by (simp add: auth_message_def startsWith_def)
  have d: "decrypt L (Some ?e) (Some s2) =
             (case decipher L ALGORITHM (deriveKey L s2 salt) iv authTag encrypted of
                SetupError m \<Rightarrow> Inl (LibraryError m)
              | FinalError m \<Rightarrow>
                  if includes_str m ''Unsupported state'' \<or> includes_str m ''auth''
                  then Inl AuthenticationFailed else Inl (LibraryError m)
              | Plain decrypted \<Rightarrow> Inr (utf8_decode L decrypted))"
    by (rule decrypt_envelope [OF assms(7) assms(3) ls li lt])
  have 1: "decrypt L (Some ?e) (Some s2) = Inl AuthenticationFailed"
    if "rejected_by L (deriveKey L s1 salt) (deriveKey L s2 salt) iv (utf8_encode L p)"
    using that c m by (simp add: d rejected_by_def)
  have 2: "decrypt L (Some ?e) (Some s2) = Inr (utf8_decode L (utf8_encode L p))"
    if "deriveKey L s2 salt = deriveKey L s1 salt"
    using that op by (simp add: d)
  from e 1 2 show ?thesis by blast
qed

theorem decrypt_wrong_secret_witness:
  "(\<exists>e. encrypt toy_lib (Some ''abc123'') (Some ''correct-horse-battery'') 0 = (Inr e, 2) \<and>
       decrypt toy_lib (Some e) (Some ''wrong-secret'') = Inl AuthenticationFailed) \<and>
   (\<exists>e. encrypt toy_lib (Some ''abc123'') (Some password_nul) 0 = (Inr e, 2) \<and>
       decrypt toy_lib (Some e) (Some ''password'') = Inr ''abc123'')"
proof -
  have d: "randomBytes toy_lib SALT_LENGTH 0 = (replicate SALT_LENGTH (CHR ''r''), 1)"
    "randomBytes toy_lib IV_LENGTH 1 = (replicate IV_LENGTH (CHR ''r''), 2)"
    by (simp_all add: toy_lib_def)
  have k: "deriveKey toy_lib ''password'' salt = deriveKey toy_lib password_nul salt" for salt
    unfolding password_nul_def
    by (rule toy_nul_same_key [symmetric]) (simp add: KEY_LENGTH_def)
  have n: "password_nul \<noteq> []"
    by (simp add: password_nul_def)
  have u: "utf8_decode toy_lib (utf8_encode toy_lib ''abc123'') = ''abc123''"
    by (simp add: toy_lib_def surrogate_lead_def)
  have 1: "\<exists>e. encrypt toy_lib (Some ''abc123'') (Some ''correct-horse-battery'') 0 = (Inr e, 2) \<and>
       decrypt toy_lib (Some e) (Some ''wrong-secret'') = Inl AuthenticationFailed"
    using decrypt_wrong_secret
      [OF toy_random_ok toy_kdf_ok toy_base64_ok toy_aead_ok _ _ _ d,
        of "''abc123''" "''correct-horse-battery''" "''wrong-secret''"]
      toy_rejected [OF toy_separates]
    by auto
  have 2: "\<exists>e. encrypt toy_lib (Some ''abc123'') (Some password_nul) 0 = (Inr e, 2) \<and>
       decrypt toy_lib (Some e) (Some ''password'') = Inr ''abc123''"
    using decrypt_wrong_secret
      [OF toy_random_ok toy_kdf_ok toy_base64_ok toy_aead_ok _ n _ d,
        of "''abc123''" "''password''"]
      k u
    by auto
  from 1 2 show ?thesis ..
qed

text \<open>
  C10. \<open>decrypt\<close> requires its inputs: when the text or the secret is empty or absent it
  fails with \<open>InvalidInput\<close>, whatever the text looks like and whatever the library would
  do: the guard comes before the prefix test, the parsing and the key derivation.
\<close>

theorem decrypt_requires_inputs:
  assumes "falsy_str t \<or> falsy_str pw"
  shows "decrypt L t pw = Inl InvalidInput"
  using assms by (auto simp: decrypt_def falsy_str_def split: option.splits)

theorem decrypt_requires_inputs_witness:
  "decrypt toy_lib (Some []) (Some ''secret'') = Inl InvalidInput \<and>
   decrypt toy_lib (Some ''plain text'') (Some []) = Inl InvalidInput \<and>
   decrypt toy_lib None (Some ''secret'') = Inl InvalidInput \<and>
   decrypt toy_lib (Some ''encrypted:v1:AAAA'') None = Inl InvalidInput"
  using decrypt_requires_inputs [of "Some []" "Some ''secret''" toy_lib]
    decrypt_requires_inputs [of "Some ''plain text''" "Some []" toy_lib]
    decrypt_requires_inputs [of None "Some ''secret''" toy_lib]
    decrypt_requires_inputs [of "Some ''encrypted:v1:AAAA''" None toy_lib]
  by (simp add: falsy_str_def)

text \<open>
  C3, as stated: a string beginning \<open>encrypted:v2:\<close> would be rejected with
  \<open>UnsupportedFormatVersion\<close>. The source rejects it with \<open>NotEncrypted\<close>.
\<close>

theorem decrypt_unknown_version_counterexample:
  "decrypt toy_lib (Some ''encrypted:v2:AAAA'') (Some ''secret'') = Inl NotEncrypted \<and>
   decrypt toy_lib (Some ''encrypted:v2:AAAA'') (Some ''secret'') \<noteq> Inl UnsupportedFormatVersion"
  by (simp add: decrypt_def startsWith_def ENCRYPTED_PREFIX_def)

text \<open>
  C3, amended: a non-empty string that does not begin with the exact prefix
  \<open>encrypted:v1:\<close>, whatever other version tag it carries, is rejected by \<open>decrypt\<close>
  with \<open>NotEncrypted\<close> for every non-empty secret and every library: it is never read
  as a v1 envelope.
\<close>

theorem decrypt_unknown_version_not_encrypted:
  assumes "t \<noteq> []" and "pw \<noteq> []" and "\<not> startsWith t ENCRYPTED_PREFIX"
  shows "decrypt L (Some t) (Some pw) = Inl NotEncrypted"
  using assms by (simp add: decrypt_def)

theorem decrypt_unknown_version_not_encrypted_witness:
  "decrypt toy_lib (Some ''encrypted:v2:AAAA'') (Some ''secret'') = Inl NotEncrypted"
  using decrypt_unknown_version_not_encrypted [of "''encrypted:v2:AAAA''" "''secret''" toy_lib]
  by (simp add: startsWith_def ENCRYPTED_PREFIX_def)

section \<open>The tree codec\<close>

lemmas esf_induct =
  encryptSensitiveFields_encryptSensitiveFields_items_encryptSensitiveFields_entries.induct

lemma both_Inr: "both a b f = Inr z \<longleftrightarrow> (\<exists>x y. a = Inr x \<and> b = Inr y \<and> z = f x y)"
  by (auto simp: both_def split: sum.splits)

text \<open>
  A pass that succeeds keeps the shape of the document and the paths of its string
  leaves, and rewrites exactly the leaves the rule selects, each into an envelope that
  \<open>encrypt\<close> made of it.
\<close>

lemma esf_leaves:
  "encryptSensitiveFields L pw path d r = (Inr d', r') \<Longrightarrow>
     list_all2 (leaf_rewritten L pw) (string_leaves d path) (string_leaves d' path) \<and>
     blank_strings d' = blank_strings d"
  "encryptSensitiveFields_items L pw path i xs r = (Inr ys, r') \<Longrightarrow>
     list_all2 (leaf_rewritten L pw) (string_leaves_items xs path i) (string_leaves_items ys path i) \<and>
     map blank_strings ys = map blank_strings xs"
  "encryptSensitiveFields_entries L pw path es r = (Inr fs, r') \<Longrightarrow>
     list_all2 (leaf_rewritten L pw) (string_leaves_entries es path) (string_leaves_entries fs path) \<and>
     map (\<lambda>(k, v). (k, blank_strings v)) fs = map (\<lambda>(k, v). (k, blank_strings v)) es"
proof (induction L pw path d r and L pw path i xs r and L pw path es r
    arbitrary: d' r' and ys r' and fs r' rule: esf_induct)
  case (3 L pw path s r)
  show ?case
  proof (cases "to_encrypt path s")
    case True
    with "3.prems" obtain c where "encrypt L (Some s) pw r = (Inr c, r')" "d' = JStr c"
      by (auto simp: to_encrypt_def split: prod.splits sum.splits)
    with True show ?thesis
      by (auto simp: leaf_rewritten_def)
  next
    case False
    with "3.prems" have "d' = JStr s"
      by (auto simp: to_encrypt_def split: if_splits)
    with False show ?thesis
      by (simp add: leaf_rewritten_def)
  qed
next
  case (4 L pw path xs r)
  then show ?case by (auto split: prod.splits sum.splits)
next
  case (5 L pw path es r)
  then show ?case by (auto split: prod.splits sum.splits)
next
  case (9 L pw path i x xs r)
  then show ?case
    by (auto simp: both_Inr list_all2_appendI split: prod.splits)
next
  case (11 L pw path k v es r)
  then show ?case
    by (auto simp: both_Inr list_all2_appendI split: prod.splits)
qed auto

text \<open>The preview returns the document as it got it, and the paths the rule selects.\<close>

lemmas lsf_induct =
  listSensitiveFields_listSensitiveFields_items_listSensitiveFields_entries.induct

lemma lsf_document:
  "fst (listSensitiveFields d path acc) = d"
  "fst (listSensitiveFields_items xs path i acc) = xs"
  "fst (listSensitiveFields_entries es path acc) = es"
proof (induction d path acc and xs path i acc and es path acc rule: lsf_induct)
  case (9 x xs path i flds)
  from "9.IH"(2) [OF prod.collapse] "9.IH"(1) show ?case
    by (simp add: case_prod_beta)
next
  case (11 k v es path flds)
  from "11.IH"(2) [OF prod.collapse] "11.IH"(1) show ?case
    by (simp add: case_prod_beta)
qed (simp_all add: case_prod_beta)

lemma lsf_leaves:
  "snd (listSensitiveFields d path acc) =
     acc @ map fst (filter (\<lambda>(p, s). to_encrypt p s) (string_leaves d path))"
  "snd (listSensitiveFields_items xs path i acc) =
     acc @ map fst (filter (\<lambda>(p, s). to_encrypt p s) (string_leaves_items xs path i))"
  "snd (listSensitiveFields_entries es path acc) =
     acc @ map fst (filter (\<lambda>(p, s). to_encrypt p s) (string_leaves_entries es path))"
proof (induction d path acc and xs path i acc and es path acc rule: lsf_induct)
  case (9 x xs path i flds)
  from "9.IH"(2) [OF prod.collapse] "9.IH"(1) show ?case
    by (simp add: case_prod_beta)
next
  case (11 k v es path flds)
  from "11.IH"(2) [OF prod.collapse] "11.IH"(1) show ?case
    by (simp add: case_prod_beta)
qed (simp_all add: case_prod_beta to_encrypt_def)

lemma replaced_filter:
  assumes "list_all2 (leaf_rewritten L pw) as bs"
  shows "map (\<lambda>(a, b). fst a) (filter (\<lambda>(a, b). snd b \<noteq> snd a) (zip as bs)) =
         map fst (filter (\<lambda>(p, s). to_encrypt p s) as)"
  using assms
proof (induction rule: list_all2_induct)
  case Nil
  then show ?case by simp
next
  case (Cons a as b bs)
  have "snd b \<noteq> snd a \<longleftrightarrow> to_encrypt (fst a) (snd a)"
    using Cons.hyps(1) encrypt_Inr_encrypted [of L "Some (snd a)" pw _ "snd b"]
    by (auto simp: leaf_rewritten_def to_encrypt_def split: if_splits)
  with Cons.IH show ?case
    by (cases a; cases b) auto
qed

text \<open>A second pass over the result of a pass changes nothing and draws nothing.\<close>

lemma esf_idem:
  "encryptSensitiveFields L pw path d r = (Inr d', r') \<Longrightarrow>
     encryptSensitiveFields L pw path d' q = (Inr d', q)"
  "encryptSensitiveFields_items L pw path i xs r = (Inr ys, r') \<Longrightarrow>
     encryptSensitiveFields_items L pw path i ys q = (Inr ys, q)"
  "encryptSensitiveFields_entries L pw path es r = (Inr fs, r') \<Longrightarrow>
     encryptSensitiveFields_entries L pw path fs q = (Inr fs, q)"
proof (induction L pw path d r and L pw path i xs r and L pw path es r
    arbitrary: d' r' q and ys r' q and fs r' q rule: esf_induct)
  case (3 L pw path s r)
  then show ?case
    by (auto dest: encrypt_Inr_encrypted split: if_splits prod.splits sum.splits)
next
  case (4 L pw path xs r)
  then show ?case by (auto split: prod.splits sum.splits)
next
  case (5 L pw path es r)
  then show ?case by (auto split: prod.splits sum.splits)
next
  case (9 L pw path i x xs r)
  obtain y r1 where 1: "encryptSensitiveFields L pw (index_path path i) x r = (y, r1)"
    by force
  obtain zs r2 where 2: "encryptSensitiveFields_items L pw path (Suc i) xs r1 = (zs, r2)"
    by force
  from "9.prems" 1 2 obtain y' zs' where 3: "y = Inr y'" "zs = Inr zs'" "ys = y' # zs'"
    by (auto simp: both_Inr)
  have "encryptSensitiveFields L pw (index_path path i) y' q = (Inr y', q)"
    using "9.IH"(1) 1 3 by simp
  moreover have "encryptSensitiveFields_items L pw path (Suc i) zs' q = (Inr zs', q)"
    using "9.IH"(2) 1 2 3 by simp
  ultimately show ?case
    using 3 by (simp add: both_def)
next
  case (11 L pw path k v es r)
  obtain w r1 where 1: "encryptSensitiveFields L pw (key_path path k) v r = (w, r1)"
    by force
  obtain gs r2 where 2: "encryptSensitiveFields_entries L pw path es r1 = (gs, r2)"
    by force
  from "11.prems" 1 2 obtain w' gs' where 3: "w = Inr w'" "gs = Inr gs'" "fs = (k, w') # gs'"
    by (auto simp: both_Inr)
  have "encryptSensitiveFields L pw (key_path path k) w' q = (Inr w', q)"
    using "11.IH"(1) 1 3 by simp
  moreover have "encryptSensitiveFields_entries L pw path gs' q = (Inr gs', q)"
    using "11.IH"(2) 1 2 3 by simp
  ultimately show ?case
    using 3 by (simp add: both_def)
qed auto

text \<open>With a secret that is present and non-empty a pass never fails.\<close>

lemma esf_total:
  assumes "\<not> falsy_str pw"
  shows "\<exists>d' r'. encryptSensitiveFields L pw path d r = (Inr d', r')"
    "\<exists>ys r'. encryptSensitiveFields_items L pw path i xs r = (Inr ys, r')"
    "\<exists>fs r'. encryptSensitiveFields_entries L pw path es r = (Inr fs, r')"
  using assms
proof (induction L pw path d r and L pw path i xs r and L pw path es r rule: esf_induct)
  case (3 L pw path s r)
  then show ?case
    by (auto simp: encrypt_def falsy_str_def Let_def trim_def split: prod.splits option.splits)
next
  case (9 L pw path i x xs r)
  then show ?case by (fastforce simp: both_def split: prod.splits)
next
  case (11 L pw path k v es r)
  then show ?case by (fastforce simp: both_def split: prod.splits)
qed auto

text \<open>The example document under the library instance.\<close>

lemmas codec_eval =
  key_path_def index_path_def isSensitive_def endsWith_def startsWith_def trim_def ws1_def ws2_def
  ws3_def surrogate_lead_def ENCRYPTED_PREFIX_def both_def show_nat.simps digit_char_def

lemma example_encrypts:
  "encryptSensitiveFields toy_lib (Some ''secret'') [] example_document 0 = (Inr example_encrypted, 2)"
  by (simp add: example_document_def example_encrypted_def toy_encrypt codec_eval)

text \<open>
  In the documented layout every credential sits below \<open>banks[i]\<close> or \<open>firefly\<close>; the
  preview lists the token and each credential, and the pass encrypts them.
\<close>

lemma documented_layout_listed:
  "snd (listSensitiveFields example_config [] []) =
     [''firefly.tokenApi'', ''banks[0].credentials.username'', ''banks[0].credentials.password'',
      ''banks[0].creditCards[0].credentials.id'', ''banks[0].creditCards[0].credentials.password'']"
  by (simp add: example_config_def example_banks_def codec_eval)

lemma documented_layout_encrypts:
  "encryptSensitiveFields toy_lib (Some ''secret'') [] example_config 0 = (Inr config_encrypted, 10)"
  by (simp add: example_config_def example_banks_def config_encrypted_def toy_encrypt codec_eval)

text \<open>
  C2. Path targeting, at the example document
  \<open>{credentials: {username: "u", password: "p"}, name: "n"}\<close>: the claim, like the comment
  of the function ("Encrypts fields matching: credentials.*, password, tokenApi"), has
  \<open>credentials.username\<close> encrypted. The source leaves it as it is: a key of the root
  gets a path without a dot in front, every one of the seven patterns starts with a
  dot, so \<open>credentials.username\<close> matches none; only \<open>credentials.password\<close> is replaced,
  as its path ends with \<open>.password\<close>. For the same reason the document \<open>{tokenApi:
  "abc123"}\<close> of the specification's end-to-end example is returned unencrypted and the
  preview lists nothing for it.
\<close>

theorem encryptSensitiveFields_root_keys_skipped:
  "encryptSensitiveFields toy_lib (Some ''secret'') [] example_document 0 = (Inr example_encrypted, 2) \<and>
   config_get [''credentials'', ''username''] example_encrypted = JStr ''u'' \<and>
   \<not> isEncrypted (JStr ''u'') \<and>
   \<not> isSensitive ''credentials.username'' \<and>
   encryptSensitiveFields toy_lib (Some ''secret'') [] example_token 0 = (Inr example_token, 0) \<and>
   snd (listSensitiveFields example_token [] []) = []"
  using example_encrypts
  by (simp add: example_encrypted_def example_token_def codec_eval)

text \<open>
  C7. \<open>encryptSensitiveFields\<close> is idempotent: whenever a pass over \<open>d\<close> returns \<open>d1\<close>, a
  second pass over \<open>d1\<close> with the same secret and path returns \<open>d1\<close> unchanged, from any
  generator state and without drawing from it; and with a secret that is present and
  non-empty the first pass does return a document.
\<close>

theorem encryptSensitiveFields_idempotent:
  "(encryptSensitiveFields L s path d r = (Inr d1, r1) \<longrightarrow>
      encryptSensitiveFields L s path d1 q = (Inr d1, q)) \<and>
   (\<not> falsy_str s \<longrightarrow> (\<exists>d1 r1. encryptSensitiveFields L s path d r = (Inr d1, r1)))"
  using esf_idem(1) [of L s path d r d1 r1 q] esf_total(1) [of s L path d r]
  by blast

theorem encryptSensitiveFields_idempotent_witness:
  "encryptSensitiveFields toy_lib (Some ''secret'') [] example_document 0 = (Inr example_encrypted, 2) \<and>
   encryptSensitiveFields toy_lib (Some ''secret'') [] example_encrypted 2 = (Inr example_encrypted, 2)"
  using encryptSensitiveFields_idempotent
    [of toy_lib "Some ''secret''" "[]" example_document 0 example_encrypted 2 2]
    example_encrypts
  by simp

text \<open>
  C8. The preview and the rewrite agree. With a secret that is present and non-empty,
  \<open>encryptSensitiveFields\<close> returns a document \<open>d'\<close> for \<open>d\<close>. Whenever it does, the paths
  \<open>listSensitiveFields d\<close> adds to \<open>fields\<close> are exactly the paths at which the string leaf
  of \<open>d'\<close> differs from the one of \<open>d\<close>, in traversal order; each of these leaves is, in
  \<open>d'\<close>, an envelope that \<open>encrypt\<close> returns for the leaf of \<open>d\<close> and the secret; every
  other string leaf, the shape of the document and every other value are the same in
  \<open>d\<close> and \<open>d'\<close>. And \<open>listSensitiveFields\<close> does not modify the document: after the call
  it is the document the call got.
\<close>

theorem listSensitiveFields_previews_rewrite:
  "(\<not> falsy_str s \<longrightarrow> (\<exists>d' r'. encryptSensitiveFields L s path d r = (Inr d', r'))) \<and>
   (encryptSensitiveFields L s path d r = (Inr d', r') \<longrightarrow>
      snd (listSensitiveFields d path flds) = flds @ replaced_paths d d' path \<and>
      list_all2 (leaf_rewritten L s) (string_leaves d path) (string_leaves d' path) \<and>
      blank_strings d' = blank_strings d) \<and>
   fst (listSensitiveFields d path flds) = d"
proof (intro conjI impI)
  assume "\<not> falsy_str s"
  then show "\<exists>d' r'. encryptSensitiveFields L s path d r = (Inr d', r')"
    by (rule esf_total(1))
next
  assume e: "encryptSensitiveFields L s path d r = (Inr d', r')"
  then show l: "list_all2 (leaf_rewritten L s) (string_leaves d path) (string_leaves d' path)"
    and "blank_strings d' = blank_strings d"
    by (simp_all add: esf_leaves(1))
  show "snd (listSensitiveFields d path flds) = flds @ replaced_paths d d' path"
    using replaced_filter [OF l] by (simp add: replaced_paths_def lsf_leaves(1))
next
  show "fst (listSensitiveFields d path flds) = d"
    by (rule lsf_document(1))
qed

theorem listSensitiveFields_previews_rewrite_witness:
  "encryptSensitiveFields toy_lib (Some ''secret'') [] example_config 0 = (Inr config_encrypted, 10) \<and>
   snd (listSensitiveFields example_config [] []) =
     [''firefly.tokenApi'', ''banks[0].credentials.username'', ''banks[0].credentials.password'',
      ''banks[0].creditCards[0].credentials.id'', ''banks[0].creditCards[0].credentials.password''] \<and>
   replaced_paths example_config config_encrypted [] =
     [''firefly.tokenApi'', ''banks[0].credentials.username'', ''banks[0].credentials.password'',
      ''banks[0].creditCards[0].credentials.id'', ''banks[0].creditCards[0].credentials.password''] \<and>
   fst (listSensitiveFields example_config [] []) = example_config"
  using listSensitiveFields_previews_rewrite
    [where L = toy_lib and s = "Some ''secret''" and path = "[]" and d = example_config and r = 0
       and d' = config_encrypted and r' = 10 and flds = "[]"]
    documented_layout_encrypts documented_layout_listed
  by simp

section \<open>Decimal indices\<close>

lemma digit_char_inj:
  assumes "d < 10" and "e < 10" and "digit_char d = digit_char e"
  shows "d = e"
proof -
  have "distinct ''0123456789''" by simp
  moreover have "d < length ''0123456789''" "e < length ''0123456789''"
    using assms by simp_all
  ultimately show ?thesis
    using assms(3) unfolding digit_char_def by (simp only: nth_eq_iff_index_eq)
qed

lemma show_nat_nonempty: "show_nat n \<noteq> []"
  by (subst show_nat.simps) simp

lemma show_nat_inj: "show_nat m = show_nat n \<Longrightarrow> m = n"
proof (induction m arbitrary: n rule: show_nat.induct)
  case (1 m)
  show ?case
  proof (cases "m < 10")
    case True
    then have m: "show_nat m = [digit_char m]"
      by (subst show_nat.simps) simp
    show ?thesis
    proof (cases "n < 10")
      case n: True
      then have "show_nat n = [digit_char n]"
        by (subst show_nat.simps) simp
      with m "1.prems" True n show ?thesis
        by (simp add: digit_char_inj)
    next
      case False
      then have "show_nat n = show_nat (n div 10) @ [digit_char (n mod 10)]"
        by (subst show_nat.simps) simp
      with m "1.prems" show ?thesis
        by (simp add: show_nat_nonempty)
    qed
  next
    case False
    then have m: "show_nat m = show_nat (m div 10) @ [digit_char (m mod 10)]"
      by (subst show_nat.simps) simp
    show ?thesis
    proof (cases "n < 10")
      case True
      then have "show_nat n = [digit_char n]"
        by (subst show_nat.simps) simp
      with m "1.prems" show ?thesis
        by (metis append_is_Nil_conv butlast_snoc butlast.simps(2) show_nat_nonempty)
    next
      case n: False
      then have "show_nat n = show_nat (n div 10) @ [digit_char (n mod 10)]"
        by (subst show_nat.simps) simp
      with m "1.prems" have "show_nat (m div 10) = show_nat (n div 10)"
        and "digit_char (m mod 10) = digit_char (n mod 10)"
        by simp_all
      then have "m div 10 = n div 10" and "m mod 10 = n mod 10"
        using "1.IH" False by (simp_all add: digit_char_inj)
      then show ?thesis
        by (metis div_mult_mod_eq)
    qed
  qed
qed

lemma array_index_Some: "array_index xs k = Some i \<Longrightarrow> i < length xs \<and> show_nat i = k"
  by (auto simp: array_index_def find_Some_iff)

lemma array_index_show: "i < length xs \<Longrightarrow> array_index xs (show_nat i) = Some i"
  unfolding array_index_def
  by (auto simp: find_Some_iff dest: show_nat_inj intro!: exI [of _ i])

lemma array_index_length: "length ys = length xs \<Longrightarrow> array_index ys k = array_index xs k"
  by (simp add: array_index_def)

section \<open>The provider\<close>

lemma own_assign_same:
  assumes "assign t k v = Some t'"
  shows "own_property t' k = Some v"
proof (cases t)
  case (JArr xs)
  with assms obtain i where "array_index xs k = Some i" "t' = JArr (xs[i := v])"
    by auto
  then show ?thesis
    using array_index_Some [of xs k i] array_index_length [of "xs[i := v]" xs k] by simp
next
  case (JObj es)
  with assms show ?thesis by (auto simp: AList.update_conv')
qed (use assms in auto)

lemma own_assign_other:
  assumes "assign t k v = Some t'" and "k' \<noteq> k"
  shows "own_property t' k' = own_property t k'"
proof (cases t)
  case (JArr xs)
  with assms obtain i where i: "array_index xs k = Some i" "t' = JArr (xs[i := v])"
    by auto
  show ?thesis
  proof (cases "array_index xs k'")
    case None
    then show ?thesis
      using i JArr array_index_length [of "xs[i := v]" xs k'] by simp
  next
    case (Some j)
    then have "j \<noteq> i"
      using i(1) assms(2) array_index_Some by blast
    then show ?thesis
      using i JArr Some array_index_length [of "xs[i := v]" xs k'] by simp
  qed
next
  case (JObj es)
  with assms show ?thesis by (auto simp: AList.update_conv')
qed (use assms in auto)

lemma config_get_scalar:
  assumes "\<not> is_object c"
  shows "config_get (k # ks) c = JUndef"
  using assms by (cases c) auto

lemma config_get_empty_object: "config_get (k # ks) (JObj []) = JUndef"
  by simp

lemma config_set_step:
  assumes "config_set (k # k' # ks) v t = Some t'"
  obtains c where
    "config_set (k' # ks) v
       (if \<not> truthy (read_property t k) \<or> \<not> is_object (read_property t k) then JObj []
        else read_property t k) = Some c"
    and "assign t k c = Some t'"
  using assms by (auto simp: Let_def split: option.splits)

declare config_set.simps(3) [simp del]

text \<open>After \<open>set\<close>, \<open>get\<close> of the same key returns the value, and \<open>get\<close> below it reads inside it.\<close>

lemma get_set_same:
  assumes "config_set p v t = Some t'" and "p \<noteq> []"
  shows "config_get (p @ ks) t' = config_get ks v"
  using assms
proof (induction p v t arbitrary: t' rule: config_set.induct)
  case (1 v target)
  then show ?case by simp
next
  case (2 k v target)
  then show ?case by (simp add: own_assign_same)
next
  case (3 k k' ks' v target)
  from "3.prems"(1) obtain c where
    c: "config_set (k' # ks') v
          (if \<not> truthy (read_property target k) \<or> \<not> is_object (read_property target k) then JObj []
           else read_property target k) = Some c"
    and a: "assign target k c = Some t'"
    by (rule config_set_step)
  have "config_get ((k' # ks') @ ks) c = config_get ks v"
    using "3.IH" [OF refl refl c] by simp
  then show ?case
    using own_assign_same [OF a] by simp
qed

text \<open>\<open>set\<close> at a key leaves \<open>get\<close> alone at every key that parts from it.\<close>

lemma get_set_other:
  assumes "config_set (c @ b # q) v t = Some t'" and "a \<noteq> b"
  shows "config_get (c @ a # p) t' = config_get (c @ a # p) t"
  using assms
proof (induction c arbitrary: t t')
  case Nil
  show ?case
  proof (cases q)
    case Nil
    with Nil.prems show ?thesis
      by (simp add: own_assign_other)
  next
    case (Cons k' ks')
    with Nil.prems obtain cc where "assign t b cc = Some t'"
      by (auto elim: config_set_step)
    with Nil.prems(2) show ?thesis
      by (simp add: own_assign_other)
  qed
next
  case (Cons k c)
  obtain k' ks' where r: "c @ b # q = k' # ks'"
    by (cases "c @ b # q") auto
  let ?child = "read_property t k"
  let ?child' = "if \<not> truthy ?child \<or> \<not> is_object ?child then JObj [] else ?child"
  from Cons.prems(1) r obtain cc where
    cc: "config_set (c @ b # q) v ?child' = Some cc" and as: "assign t k cc = Some t'"
    by (auto elim: config_set_step)
  have 1: "config_get (c @ a # p) cc = config_get (c @ a # p) ?child'"
    using Cons.IH [OF cc Cons.prems(2)] .
  obtain k2 ks2 where r2: "c @ a # p = k2 # ks2"
    by (cases "c @ a # p") auto
  have 2: "config_get (c @ a # p) ?child' = config_get ((k # c) @ a # p) t"
  proof (cases "own_property t k")
    case None
    then show ?thesis by (simp add: read_property_def r2)
  next
    case (Some ch)
    then show ?thesis
      by (cases "is_object ch") (auto simp: read_property_def r2 config_get_scalar elim: is_object.elims)
  qed
  show ?case
    using own_assign_same [OF as] 1 2 by simp
qed


lemma parts_from_decomp:
  "parts_from p q \<Longrightarrow> \<exists>c a b p' q'. p = c @ a # p' \<and> q = c @ b # q' \<and> a \<noteq> b"
proof (induction p q rule: parts_from.induct)
  case (1 a p b q)
  show ?case
  proof (cases "a = b")
    case True
    with 1 obtain c a' b' p' q' where "p = c @ a' # p'" "q = c @ b' # q'" "a' \<noteq> b'"
      by auto
    then have "a # p = (a # c) @ a' # p' \<and> b # q = (a # c) @ b' # q' \<and> a' \<noteq> b'"
      using True by simp
    then show ?thesis by blast
  next
    case False
    then have "a # p = [] @ a # p \<and> b # q = [] @ b # q \<and> a \<noteq> b"
      by simp
    then show ?thesis by blast
  qed
qed simp_all

lemma get_set_parts:
  assumes "config_set q v t = Some t'" and "parts_from p q"
  shows "config_get p t' = config_get p t"
proof -
  from parts_from_decomp [OF assms(2)]
  obtain c a b p' q' where "p = c @ a # p'" "q = c @ b # q'" "a \<noteq> b"
    by blast
  with assms(1) show ?thesis
    by (simp add: get_set_other)
qed

subsection \<open>One override\<close>

lemma env_override_other:
  assumes "env_override env var key cfg = Some cfg'" and "parts_from p key"
  shows "config_get p cfg' = config_get p cfg"
  using assms
  by (auto simp: env_override_def get_set_parts split: option.splits if_splits)

lemma env_override_same:
  assumes "env_override env var key cfg = Some cfg'" and "env var = Some v" and "v \<noteq> []"
    and "key \<noteq> []"
  shows "config_get key cfg' = JStr v"
  using assms get_set_same [of key "JStr v" cfg cfg' "[]"]
  by (simp add: env_override_def)

subsection \<open>The overrides of one bank and of one credit card\<close>

lemma bank_overrides_other:
  assumes "bank_overrides env i cfg = Some cfg'" and "\<And>f. parts_from p (bank_key i f)"
  shows "config_get p cfg' = config_get p cfg"
proof -
  from assms(1) obtain c1 c2 c3 where
    "env_override env (bank_var i ''USERNAME'') (bank_key i ''username'') cfg = Some c1"
    "env_override env (bank_var i ''PASSWORD'') (bank_key i ''password'') c1 = Some c2"
    "env_override env (bank_var i ''ID'') (bank_key i ''id'') c2 = Some c3"
    "env_override env (bank_var i ''USERCODE'') (bank_key i ''userCode'') c3 = Some cfg'"
    by (auto simp: bank_overrides_def bind_eq_Some_conv)
  then show ?thesis
    using assms(2) by (simp add: env_override_other)
qed

lemma cc_overrides_other:
  assumes "cc_overrides env i j cfg = Some cfg'" and "\<And>f. parts_from p (cc_key i j f)"
  shows "config_get p cfg' = config_get p cfg"
proof -
  from assms(1) obtain c1 c2 c3 where
    "env_override env (cc_var i j ''USERNAME'') (cc_key i j ''username'') cfg = Some c1"
    "env_override env (cc_var i j ''PASSWORD'') (cc_key i j ''password'') c1 = Some c2"
    "env_override env (cc_var i j ''ID'') (cc_key i j ''id'') c2 = Some c3"
    "env_override env (cc_var i j ''CARD6DIGITS'') (cc_key i j ''card6Digits'') c3 = Some cfg'"
    by (auto simp: cc_overrides_def bind_eq_Some_conv)
  then show ?thesis
    using assms(2) by (simp add: env_override_other)
qed

lemma bank_overrides_password:
  assumes "bank_overrides env i cfg = Some cfg'"
    and "env (bank_var i ''PASSWORD'') = Some v" and "v \<noteq> []"
  shows "config_get (bank_key i ''password'') cfg' = JStr v"
proof -
  from assms(1) obtain c1 c2 c3 where
    1: "env_override env (bank_var i ''PASSWORD'') (bank_key i ''password'') c1 = Some c2"
    and 2: "env_override env (bank_var i ''ID'') (bank_key i ''id'') c2 = Some c3"
    and 3: "env_override env (bank_var i ''USERCODE'') (bank_key i ''userCode'') c3 = Some cfg'"
    by (auto simp: bank_overrides_def bind_eq_Some_conv)
  have "config_get (bank_key i ''password'') c2 = JStr v"
    using env_override_same [OF 1 assms(2,3)] by (simp add: bank_key_def)
  moreover have "config_get (bank_key i ''password'') c3 = config_get (bank_key i ''password'') c2"
    by (rule env_override_other [OF 2]) (simp add: bank_key_def)
  moreover have "config_get (bank_key i ''password'') cfg' = config_get (bank_key i ''password'') c3"
    by (rule env_override_other [OF 3]) (simp add: bank_key_def)
  ultimately show ?thesis by simp
qed

lemma cc_overrides_password:
  assumes "cc_overrides env i j cfg = Some cfg'"
    and "env (cc_var i j ''PASSWORD'') = Some v" and "v \<noteq> []"
  shows "config_get (cc_key i j ''password'') cfg' = JStr v"
proof -
  from assms(1) obtain c1 c2 c3 where
    1: "env_override env (cc_var i j ''PASSWORD'') (cc_key i j ''password'') c1 = Some c2"
    and 2: "env_override env (cc_var i j ''ID'') (cc_key i j ''id'') c2 = Some c3"
    and 3: "env_override env (cc_var i j ''CARD6DIGITS'') (cc_key i j ''card6Digits'') c3 = Some cfg'"
    by (auto simp: cc_overrides_def bind_eq_Some_conv)
  have "config_get (cc_key i j ''password'') c2 = JStr v"
    using env_override_same [OF 1 assms(2,3)] by (simp add: cc_key_def)
  moreover have "config_get (cc_key i j ''password'') c3 = config_get (cc_key i j ''password'') c2"
    by (rule env_override_other [OF 2]) (simp add: cc_key_def)
  moreover have "config_get (cc_key i j ''password'') cfg' = config_get (cc_key i j ''password'') c3"
    by (rule env_override_other [OF 3]) (simp add: cc_key_def)
  ultimately show ?thesis by simp
qed

subsection \<open>The two loops\<close>

lemma forEach_creditCards_other:
  assumes "forEach_creditCards env i j0 ccs cfg = Inr cfg'"
    and "\<And>j f. j0 \<le> j \<Longrightarrow> parts_from p (cc_key i j f)"
  shows "config_get p cfg' = config_get p cfg"
  using assms
proof (induction ccs arbitrary: j0 cfg)
  case Nil
  then show ?case by simp
next
  case (Cons cc ccs)
  from Cons.prems(1) obtain c1 where
    1: "cc_overrides env i j0 cfg = Some c1" and 2: "forEach_creditCards env i (Suc j0) ccs c1 = Inr cfg'"
    by (auto split: option.splits)
  have "config_get p c1 = config_get p cfg"
    using cc_overrides_other [OF 1] Cons.prems(2) by simp
  moreover have "config_get p cfg' = config_get p c1"
    using Cons.IH [OF 2] Cons.prems(2) by simp
  ultimately show ?case by simp
qed

lemma forEach_creditCards_password:
  assumes "forEach_creditCards env i j0 ccs cfg = Inr cfg'"
    and "j0 \<le> j" and "j < j0 + length ccs"
    and "env (cc_var i j ''PASSWORD'') = Some v" and "v \<noteq> []"
  shows "config_get (cc_key i j ''password'') cfg' = JStr v"
  using assms(1,2,3)
proof (induction ccs arbitrary: j0 cfg)
  case Nil
  then show ?case by simp
next
  case (Cons cc ccs)
  from Cons.prems(1) obtain c1 where
    1: "cc_overrides env i j0 cfg = Some c1" and 2: "forEach_creditCards env i (Suc j0) ccs c1 = Inr cfg'"
    by (auto split: option.splits)
  show ?case
  proof (cases "j = j0")
    case True
    have "config_get (cc_key i j ''password'') c1 = JStr v"
      using cc_overrides_password [OF 1] assms(4,5) True by simp
    moreover have "config_get (cc_key i j ''password'') cfg' = config_get (cc_key i j ''password'') c1"
    proof (rule forEach_creditCards_other [OF 2])
      fix j' f assume "Suc j0 \<le> j'"
      then have "show_nat j \<noteq> show_nat j'"
        using True show_nat_inj by fastforce
      then show "parts_from (cc_key i j ''password'') (cc_key i j' f)"
        by (simp add: cc_key_def)
    qed
    ultimately show ?thesis by simp
  next
    case False
    then show ?thesis
      using Cons.IH [OF 2] Cons.prems(2,3) by simp
  qed
qed

lemma forEach_banks_other:
  assumes "forEach_banks env i0 banks cfg = Inr cfg'"
    and "\<And>i f. i0 \<le> i \<Longrightarrow> parts_from p (bank_key i f)"
    and "\<And>i j f. i0 \<le> i \<Longrightarrow> parts_from p (cc_key i j f)"
  shows "config_get p cfg' = config_get p cfg"
  using assms
proof (induction banks arbitrary: i0 cfg)
  case Nil
  then show ?case by simp
next
  case (Cons bank banks)
  from Cons.prems(1) obtain c1 ccs c2 where
    1: "bank_overrides env i0 cfg = Some c1"
    and 2: "forEach_creditCards env i0 0 ccs c1 = Inr c2"
    and 3: "forEach_banks env (Suc i0) banks c2 = Inr cfg'"
    by (auto split: option.splits sum.splits)
  have "config_get p c1 = config_get p cfg"
    using bank_overrides_other [OF 1] Cons.prems(2) by simp
  moreover have "config_get p c2 = config_get p c1"
    using forEach_creditCards_other [OF 2] Cons.prems(3) by simp
  moreover have "config_get p cfg' = config_get p c2"
    using Cons.IH [OF 3] Cons.prems(2,3) by simp
  ultimately show ?case by simp
qed

lemma forEach_banks_password:
  assumes "forEach_banks env i0 banks cfg = Inr cfg'"
    and "i0 \<le> i" and "i < i0 + length banks"
    and "env (bank_var i ''PASSWORD'') = Some v" and "v \<noteq> []"
  shows "config_get (bank_key i ''password'') cfg' = JStr v"
  using assms(1,2,3)
proof (induction banks arbitrary: i0 cfg)
  case Nil
  then show ?case by simp
next
  case (Cons bank banks)
  from Cons.prems(1) obtain c1 ccs c2 where
    1: "bank_overrides env i0 cfg = Some c1"
    and 2: "forEach_creditCards env i0 0 ccs c1 = Inr c2"
    and 3: "forEach_banks env (Suc i0) banks c2 = Inr cfg'"
    by (auto split: option.splits sum.splits)
  show ?case
  proof (cases "i = i0")
    case True
    let ?p = "bank_key i ''password''"
    have "config_get ?p c1 = JStr v"
      using bank_overrides_password [OF 1] assms(4,5) True by simp
    moreover have "config_get ?p c2 = config_get ?p c1"
      by (rule forEach_creditCards_other [OF 2]) (simp add: bank_key_def cc_key_def)
    moreover have "config_get ?p cfg' = config_get ?p c2"
    proof (rule forEach_banks_other [OF 3])
      fix i' f assume "Suc i0 \<le> i'"
      then have "show_nat i \<noteq> show_nat i'"
        using True show_nat_inj by fastforce
      then show "parts_from ?p (bank_key i' f)"
        by (simp add: bank_key_def)
    next
      fix i' j f assume "Suc i0 \<le> i'"
      then have "show_nat i \<noteq> show_nat i'"
        using True show_nat_inj by fastforce
      then show "parts_from ?p (cc_key i' j f)"
        by (simp add: bank_key_def cc_key_def)
    qed
    ultimately show ?thesis by simp
  next
    case False
    then show ?thesis
      using Cons.IH [OF 3] Cons.prems(2,3) by simp
  qed
qed

lemma forEach_banks_cc_password:
  assumes "forEach_banks env i0 banks cfg = Inr cfg'"
    and "i0 \<le> i" and "i < i0 + length banks"
    and "creditCards_of (banks ! (i - i0)) = Inr ccs" and "j < length ccs"
    and "env (cc_var i j ''PASSWORD'') = Some v" and "v \<noteq> []"
  shows "config_get (cc_key i j ''password'') cfg' = JStr v"
  using assms(1,2,3,4)
proof (induction banks arbitrary: i0 cfg)
  case Nil
  then show ?case by simp
next
  case (Cons bank banks)
  from Cons.prems(1) obtain c1 ccs' c2 where
    1: "bank_overrides env i0 cfg = Some c1"
    and cc: "creditCards_of bank = Inr ccs'"
    and 2: "forEach_creditCards env i0 0 ccs' c1 = Inr c2"
    and 3: "forEach_banks env (Suc i0) banks c2 = Inr cfg'"
    by (auto split: option.splits sum.splits)
  show ?case
  proof (cases "i = i0")
    case True
    let ?p = "cc_key i j ''password''"
    have "ccs' = ccs"
      using cc Cons.prems(4) True by simp
    then have "config_get ?p c2 = JStr v"
      using forEach_creditCards_password [OF 2, of j v] assms(5,6,7) True by simp
    moreover have "config_get ?p cfg' = config_get ?p c2"
    proof (rule forEach_banks_other [OF 3])
      fix i' f assume "Suc i0 \<le> i'"
      then have "show_nat i \<noteq> show_nat i'"
        using True show_nat_inj by fastforce
      then show "parts_from ?p (bank_key i' f)"
        by (simp add: bank_key_def cc_key_def)
    next
      fix i' j' f assume "Suc i0 \<le> i'"
      then have "show_nat i \<noteq> show_nat i'"
        using True show_nat_inj by fastforce
      then show "parts_from ?p (cc_key i' j' f)"
        by (simp add: cc_key_def)
    qed
    ultimately show ?thesis by simp
  next
    case False
    then have "banks ! (i - Suc i0) = (bank # banks) ! (i - i0)"
      using Cons.prems(2) by (simp add: nth_Cons')
    then show ?thesis
      using Cons.IH [OF 3] Cons.prems(2,3,4) False by simp
  qed
qed


section \<open>The decryption phase\<close>

lemma decryptObject_items_nth:
  "decryptObject_items L pw xs = Inr ys \<Longrightarrow>
     length ys = length xs \<and> (\<forall>i<length xs. decryptObject L pw (xs ! i) = Inr (ys ! i))"
proof (induction xs arbitrary: ys)
  case Nil
  then show ?case by simp
next
  case (Cons x xs)
  from Cons.prems obtain y ys' where
    y: "decryptObject L pw x = Inr y" "decryptObject_items L pw xs = Inr ys'" "ys = y # ys'"
    by (auto split: sum.splits)
  show ?case
    using Cons.IH [OF y(2)] y by (auto simp: nth_Cons')
qed

lemma decryptObject_entries_map_of:
  "decryptObject_entries L pw es = Inr fs \<Longrightarrow> map_of es k = Some c \<Longrightarrow>
     \<exists>c'. map_of fs k = Some c' \<and> decryptObject L pw c = Inr c'"
proof (induction es arbitrary: fs)
  case Nil
  then show ?case by simp
next
  case (Cons e es)
  obtain k' v where e: "e = (k', v)" by (cases e)
  from Cons.prems(1) e obtain w fs' where
    w: "decryptObject L pw v = Inr w" "decryptObject_entries L pw es = Inr fs'" "fs = (k', w) # fs'"
    by (auto split: sum.splits)
  show ?case
    using Cons.IH [OF w(2)] Cons.prems(2) e w by (cases "k = k'") auto
qed

lemma decryptObject_own_property:
  assumes "decryptObject L pw d = Inr d'" and "own_property d k = Some c"
  shows "\<exists>c'. own_property d' k = Some c' \<and> decryptObject L pw c = Inr c'"
proof (cases d)
  case (JArr xs)
  with assms(1) obtain ys where ys: "decryptObject_items L pw xs = Inr ys" "d' = JArr ys"
    by (auto split: sum.splits)
  from assms(2) JArr obtain i where i: "array_index xs k = Some i" "c = xs ! i"
    by auto
  have "length ys = length xs" "decryptObject L pw (xs ! i) = Inr (ys ! i)"
    using decryptObject_items_nth [OF ys(1)] array_index_Some [OF i(1)] by simp_all
  then show ?thesis
    using ys(2) i array_index_length [of ys xs k] by simp
next
  case (JObj es)
  with assms(1) obtain fs where fs: "decryptObject_entries L pw es = Inr fs" "d' = JObj fs"
    by (auto split: sum.splits)
  then show ?thesis
    using decryptObject_entries_map_of [OF fs(1)] assms(2) JObj by simp
qed (use assms in auto)

text \<open>A string that is not an envelope is the same after \<open>decryptObject\<close>, wherever it is.\<close>

lemma decryptObject_keeps_plain:
  assumes "decryptObject L pw d = Inr d'" and "config_get ks d = JStr v"
    and "\<not> isEncrypted (JStr v)"
  shows "config_get ks d' = JStr v"
  using assms(1,2)
proof (induction ks arbitrary: d d')
  case Nil
  then show ?case using assms(3) by simp
next
  case (Cons k ks)
  from Cons.prems(2) obtain c where c: "own_property d k = Some c" "config_get ks c = JStr v"
    by (auto split: option.splits)
  from decryptObject_own_property [OF Cons.prems(1) c(1)]
  obtain c' where c': "own_property d' k = Some c'" "decryptObject L pw c = Inr c'"
    by blast
  show ?case
    using Cons.IH [OF c'(2) c(2)] c'(1) by simp
qed

lemma hasEncryptedValues_leaves:
  "hasEncryptedValues d \<longleftrightarrow> (\<exists>l \<in> set (string_leaves d path). isEncrypted (JStr (snd l)))"
  "hasEncryptedValues_items xs \<longleftrightarrow>
     (\<exists>l \<in> set (string_leaves_items xs path i). isEncrypted (JStr (snd l)))"
  "hasEncryptedValues_values es \<longleftrightarrow>
     (\<exists>l \<in> set (string_leaves_entries es path). isEncrypted (JStr (snd l)))"
  by (induction d path and xs path i and es path
      rule: string_leaves_string_leaves_items_string_leaves_entries.induct) auto

lemma decryptBanksConfig_frame:
  assumes "decryptBanksConfig L pw cfg = Inr cfg'" and "k \<noteq> ''banks''"
  shows "config_get (k # ks) cfg' = config_get (k # ks) cfg"
proof (cases "truthy (config_get [''banks''] cfg)")
  case False
  with assms(1) show ?thesis by (simp add: decryptBanksConfig_def)
next
  case True
  with assms(1) obtain d where "config_set ([] @ ''banks'' # []) d cfg = Some cfg'"
    by (auto simp: decryptBanksConfig_def Let_def split: sum.splits option.splits)
  from get_set_other [OF this assms(2)] show ?thesis by simp
qed

lemma decryptFireflyConfig_frame:
  assumes "decryptFireflyConfig L pw cfg = Inr cfg'"
  shows "k \<noteq> ''firefly'' \<Longrightarrow> config_get (k # ks) cfg' = config_get (k # ks) cfg"
    and "k \<noteq> ''tokenApi'' \<Longrightarrow> config_get (''firefly'' # k # ks) cfg' = config_get (''firefly'' # k # ks) cfg"
proof -
  let ?t = "config_get [''firefly'', ''tokenApi''] cfg"
  have "cfg' = cfg \<or> (\<exists>d. config_set [''firefly'', ''tokenApi''] d cfg = Some cfg')"
    using assms
    by (auto simp: decryptFireflyConfig_def Let_def split: sum.splits option.splits if_splits)
  then show "k \<noteq> ''firefly'' \<Longrightarrow> config_get (k # ks) cfg' = config_get (k # ks) cfg"
    and "k \<noteq> ''tokenApi'' \<Longrightarrow> config_get (''firefly'' # k # ks) cfg' = config_get (''firefly'' # k # ks) cfg"
    using get_set_other [of "[]" "''firefly''" "[''tokenApi'']" _ cfg cfg' k ks]
      get_set_other [of "[''firefly'']" "''tokenApi''" "[]" _ cfg cfg' k ks]
    by auto
qed

lemma decryptBanksConfig_keeps_plain:
  assumes "decryptBanksConfig L pw cfg = Inr cfg'"
    and "config_get (''banks'' # ks) cfg = JStr v" and "\<not> isEncrypted (JStr v)"
  shows "config_get (''banks'' # ks) cfg' = JStr v"
proof (cases "truthy (config_get [''banks''] cfg)")
  case False
  with assms(1,2) show ?thesis by (simp add: decryptBanksConfig_def)
next
  case True
  from assms(2) obtain b where b: "own_property cfg ''banks'' = Some b" "config_get ks b = JStr v"
    by (auto split: option.splits)
  with True assms(1) obtain d where
    d: "decryptObject L pw b = Inr d" "config_set [''banks''] d cfg = Some cfg'"
    by (auto simp: decryptBanksConfig_def Let_def split: sum.splits option.splits)
  have "config_get ([''banks''] @ ks) cfg' = config_get ks d"
    using get_set_same [OF d(2)] by simp
  then show ?thesis
    using decryptObject_keeps_plain [OF d(1) b(2) assms(3)] by simp
qed

lemma decryptionPhase_keeps_plain:
  assumes "decryptionPhase L env cfg = Inr cfg'"
    and "config_get (''banks'' # ks) cfg = JStr v" and "\<not> isEncrypted (JStr v)"
  shows "config_get (''banks'' # ks) cfg' = JStr v"
proof -
  have "cfg' = cfg \<or>
        (\<exists>pw c1. decryptBanksConfig L pw cfg = Inr c1 \<and> decryptFireflyConfig L pw c1 = Inr cfg')"
    using assms(1)
    by (auto simp: decryptionPhase_def Let_def split: if_splits sum.splits)
  then show ?thesis
  proof
    assume "cfg' = cfg"
    with assms(2) show ?thesis by simp
  next
    assume "\<exists>pw c1. decryptBanksConfig L pw cfg = Inr c1 \<and> decryptFireflyConfig L pw c1 = Inr cfg'"
    then obtain pw c1 where
      1: "decryptBanksConfig L pw cfg = Inr c1" and 2: "decryptFireflyConfig L pw c1 = Inr cfg'"
      by blast
    have "config_get (''banks'' # ks) c1 = JStr v"
      using decryptBanksConfig_keeps_plain [OF 1 assms(2,3)] .
    moreover have "config_get (''banks'' # ks) cfg' = config_get (''banks'' # ks) c1"
      using decryptFireflyConfig_frame(1) [OF 2, of "''banks''"] by simp
    ultimately show ?thesis by simp
  qed
qed


section \<open>The example configurations\<close>

lemma plain_strings:
  "\<not> startsWith ''leumi'' ENCRYPTED_PREFIX" "\<not> startsWith ''user'' ENCRYPTED_PREFIX"
  "\<not> startsWith ''fileval'' ENCRYPTED_PREFIX" "\<not> startsWith ''isracard'' ENCRYPTED_PREFIX"
  "\<not> startsWith ''123'' ENCRYPTED_PREFIX" "\<not> startsWith ''ccfile'' ENCRYPTED_PREFIX"
  "\<not> startsWith ''token'' ENCRYPTED_PREFIX" "\<not> startsWith ''http://firefly'' ENCRYPTED_PREFIX"
  "\<not> startsWith ''envval'' ENCRYPTED_PREFIX" "\<not> startsWith ''ccenv'' ENCRYPTED_PREFIX"
  by (simp_all add: startsWith_def ENCRYPTED_PREFIX_def)

lemma show_nat_0: "show_nat 0 = ''0''"
  by (simp add: show_nat.simps digit_char_def)

lemmas provider_eval =
  required_def required_keys_def applyCredentialEnvOverrides_def bank_overrides_def cc_overrides_def
  env_override_def bank_var_def bank_key_def cc_var_def cc_key_def show_nat_0 array_index_def
  config_set.simps(3) read_property_def example_banks_def

lemma required_example:
  "required required_keys example_config = Inr ()"
  "required required_keys config_outside = Inr ()"
  "required required_keys config_sealed = Inr ()"
  by (simp_all add: required_def required_keys_def example_config_def config_outside_def
      config_sealed_def example_banks_def)

lemma overrides_none:
  "applyCredentialEnvOverrides env_none example_config = Inr example_config"
  "applyCredentialEnvOverrides env_none config_outside = Inr config_outside"
  "applyCredentialEnvOverrides env_none config_sealed = Inr config_sealed"
  by (simp_all add: provider_eval env_none_def example_config_def config_outside_def config_sealed_def)

lemma overrides_empty_password:
  "applyCredentialEnvOverrides env_empty_password example_config = Inr example_config"
  by (simp add: provider_eval env_empty_password_def example_config_def)

lemma overrides_passwords:
  "applyCredentialEnvOverrides env_passwords example_config = Inr config_overridden"
  by (simp add: provider_eval env_passwords_def example_config_def config_overridden_def)

lemma phase_plain:
  "decryptionPhase L env example_config = Inr example_config"
  "decryptionPhase L env config_outside = Inr config_outside"
  by (simp_all add: decryptionPhase_def example_config_def config_outside_def example_banks_def
      plain_strings)

lemma phase_sealed:
  "decryptionPhase toy_lib env_master config_sealed = Inr config_opened"
  by (simp add: decryptionPhase_def decryptBanksConfig_def decryptFireflyConfig_def
      config_sealed_def config_opened_def example_banks_def env_master_def falsy_str_def
      plain_strings toy_decrypt)


section \<open>The resolver\<close>

text \<open>
  C5, as stated: whenever \<open>BANK_0_PASSWORD\<close> is set, the resolved
  \<open>banks[0].credentials.password\<close> would equal its value. Set to the empty string, the
  variable is skipped by \<open>if (bankPassword)\<close> and the file value stays.
\<close>

theorem credential_override_counterexample:
  "env_empty_password ''BANK_0_PASSWORD'' = Some [] \<and>
   loadConfig toy_lib env_empty_password example_config = Inr example_config \<and>
   config_get [''banks'', ''0'', ''credentials'', ''password''] example_config = JStr ''fileval''"
  by (simp add: loadConfig_def required_example overrides_empty_password phase_plain)
    (simp add: env_empty_password_def example_config_def example_banks_def array_index_def show_nat_0)

text \<open>
  C5, amended: for a document whose \<open>banks\<close> is an array with an entry at index \<open>i\<close>,
  if \<open>BANK_i_PASSWORD\<close> is set to a non-empty value, then after the override step
  \<open>banks[i].credentials.password\<close> equals that value, and so does the resolved
  configuration whenever the value is not itself an envelope (an envelope goes through
  the decryption phase like a value of the file). The same holds for
  \<open>BANK_i_CC_j_PASSWORD\<close> and \<open>banks[i].creditCards[j].credentials.password\<close>, for every
  entry \<open>j\<close> of the bank's \<open>creditCards\<close>.
\<close>

theorem credential_override_precedence:
  assumes "config_get [''banks''] cfg = JArr banks" and "i < length banks"
    and "applyCredentialEnvOverrides env cfg = Inr cfg1"
  shows "(env (bank_var i ''PASSWORD'') = Some v \<and> v \<noteq> [] \<longrightarrow>
            config_get (bank_key i ''password'') cfg1 = JStr v \<and>
            (\<not> isEncrypted (JStr v) \<and> loadConfig L env cfg = Inr cfg2 \<longrightarrow>
               config_get (bank_key i ''password'') cfg2 = JStr v)) \<and>
         (creditCards_of (banks ! i) = Inr ccs \<and> j < length ccs \<and>
          env (cc_var i j ''PASSWORD'') = Some w \<and> w \<noteq> [] \<longrightarrow>
            config_get (cc_key i j ''password'') cfg1 = JStr w \<and>
            (\<not> isEncrypted (JStr w) \<and> loadConfig L env cfg = Inr cfg2 \<longrightarrow>
               config_get (cc_key i j ''password'') cfg2 = JStr w))"
proof -
  have loop: "forEach_banks env 0 banks cfg = Inr cfg1"
    using assms(1,3) by (simp add: applyCredentialEnvOverrides_def)
  have phase: "decryptionPhase L env cfg1 = Inr cfg2" if "loadConfig L env cfg = Inr cfg2"
    using that assms(3) by (simp add: loadConfig_def split: sum.splits)
  have bank: "config_get (bank_key i ''password'') cfg1 = JStr v"
    if "env (bank_var i ''PASSWORD'') = Some v" "v \<noteq> []"
    using forEach_banks_password [OF loop _ _ that] assms(2) by simp
  have card: "config_get (cc_key i j ''password'') cfg1 = JStr w"
    if "creditCards_of (banks ! i) = Inr ccs" "j < length ccs"
      "env (cc_var i j ''PASSWORD'') = Some w" "w \<noteq> []"
    using forEach_banks_cc_password [OF loop _ _ _ that(2,3,4)] that(1) assms(2) by simp
  have keep: "config_get (''banks'' # ks) cfg2 = JStr x"
    if "config_get (''banks'' # ks) cfg1 = JStr x" "\<not> isEncrypted (JStr x)"
      "loadConfig L env cfg = Inr cfg2" for ks x
    using decryptionPhase_keeps_plain [OF phase [OF that(3)] that(1,2)] .
  show ?thesis
    using bank card keep [of "tl (bank_key i ''password'')" v]
      keep [of "tl (cc_key i j ''password'')" w]
    by (simp add: bank_key_def cc_key_def)
qed

theorem credential_override_precedence_witness:
  "config_get [''banks'', ''0'', ''credentials'', ''password''] example_config = JStr ''fileval'' \<and>
   env_passwords ''BANK_0_PASSWORD'' = Some ''envval'' \<and>
   env_passwords ''BANK_0_CC_0_PASSWORD'' = Some ''ccenv'' \<and>
   loadConfig toy_lib env_passwords example_config = Inr config_overridden \<and>
   config_get [''banks'', ''0'', ''credentials'', ''password''] config_overridden = JStr ''envval'' \<and>
   config_get [''banks'', ''0'', ''creditCards'', ''0'', ''credentials'', ''password'']
     config_overridden = JStr ''ccenv''"
proof -
  have b: "config_get [''banks''] example_config = example_banks ''fileval''"
    by (simp add: example_config_def)
  have l: "loadConfig toy_lib env_passwords example_config = Inr config_overridden"
    by (simp add: loadConfig_def required_example overrides_passwords)
      (simp add: decryptionPhase_def config_overridden_def plain_strings)
  show ?thesis
    using credential_override_precedence
      [OF b [unfolded example_banks_def] _ overrides_passwords,
        of 0 "''envval''" toy_lib config_overridden
          "[JObj [(''type'', JStr ''isracard''),
                  (''credentials'', JObj [(''id'', JStr ''123''), (''password'', JStr ''ccfile'')])]]"
          0 "''ccenv''"]
      l
    by (simp add: bank_var_def bank_key_def cc_var_def cc_key_def show_nat_0 env_passwords_def
        plain_strings example_config_def example_banks_def array_index_def)
qed

text \<open>
  C4, as stated: every document with at least one encrypted leaf would fail with
  \<open>MasterSecretRequired\<close> when no master secret is in the environment. With the
  envelope at \<open>firefly.baseUrl\<close> the resolver returns the document as it is.
\<close>

theorem decryption_gating_counterexample:
  "hasEncryptedValues config_outside \<and>
   env_none ''MASTER_PASSWORD'' = None \<and>
   loadConfig toy_lib env_none config_outside = Inr config_outside"
  by (simp add: loadConfig_def required_example overrides_none phase_plain)
    (simp add: config_outside_def env_none_def)

text \<open>
  C4, amended: for a document that has the required keys, let \<open>cfg1\<close> be what the
  credential overrides make of it. If no string leaf of the \<open>banks\<close> subtree of \<open>cfg1\<close>
  is an envelope and \<open>firefly.tokenApi\<close> is not one, the resolver returns \<open>cfg1\<close>,
  whatever the environment says about the master secret. If some string leaf of the
  \<open>banks\<close> subtree is an envelope, or \<open>firefly.tokenApi\<close> is one, and \<open>MASTER_PASSWORD\<close> is
  absent or empty, the resolver fails with \<open>MasterSecretRequired\<close>, whatever the library
  would do: nothing is decrypted before.
\<close>

theorem decryption_gating:
  assumes "required required_keys cfg = Inr ()"
    and "applyCredentialEnvOverrides env cfg = Inr cfg1"
  shows "((\<forall>l \<in> set (string_leaves (config_get [''banks''] cfg1) p). \<not> isEncrypted (JStr (snd l))) \<and>
          \<not> isEncrypted (config_get [''firefly'', ''tokenApi''] cfg1) \<longrightarrow>
            loadConfig L env cfg = Inr cfg1) \<and>
         (((\<exists>l \<in> set (string_leaves (config_get [''banks''] cfg1) p). isEncrypted (JStr (snd l))) \<or>
           isEncrypted (config_get [''firefly'', ''tokenApi''] cfg1)) \<and>
          falsy_str (env ''MASTER_PASSWORD'') \<longrightarrow>
            loadConfig L env cfg = Inl MasterSecretRequired)"
  using assms hasEncryptedValues_leaves(1) [of "config_get [''banks''] cfg1" p]
  by (auto simp: loadConfig_def decryptionPhase_def Let_def)

theorem decryption_gating_witness:
  "loadConfig toy_lib env_none example_config = Inr example_config \<and>
   hasEncryptedValues (config_get [''banks''] config_sealed) \<and>
   loadConfig toy_lib env_none config_sealed = Inl MasterSecretRequired"
  using decryption_gating [OF required_example(1) overrides_none(1), of "[]" toy_lib]
    decryption_gating [OF required_example(3) overrides_none(3), of "[]" toy_lib]
  by (simp add: example_config_def config_sealed_def example_banks_def plain_strings
      index_path_def key_path_def show_nat_0 env_none_def falsy_str_def)

text \<open>
  C9. The decryption phase reads and rewrites only the \<open>banks\<close> subtree and the
  \<open>firefly.tokenApi\<close> leaf. When it succeeds, \<open>get\<close> returns what it returned before at
  every key that does not start with \<open>banks\<close> or \<open>firefly\<close>, and at every key
  \<open>firefly:k:...\<close> with \<open>k\<close> other than \<open>tokenApi\<close>. When no string leaf of the \<open>banks\<close>
  subtree is an envelope and \<open>firefly.tokenApi\<close> is not one, the phase asks for no master
  secret and returns the document as it is, with every envelope it holds elsewhere.
\<close>

theorem decryptionPhase_frame:
  "(decryptionPhase L env cfg = Inr cfg' \<longrightarrow>
      (\<forall>k ks. k \<noteq> ''banks'' \<and> k \<noteq> ''firefly'' \<longrightarrow>
         config_get (k # ks) cfg' = config_get (k # ks) cfg) \<and>
      (\<forall>k ks. k \<noteq> ''tokenApi'' \<longrightarrow>
         config_get (''firefly'' # k # ks) cfg' = config_get (''firefly'' # k # ks) cfg)) \<and>
   (\<not> hasEncryptedValues (config_get [''banks''] cfg) \<and>
    \<not> isEncrypted (config_get [''firefly'', ''tokenApi''] cfg) \<longrightarrow>
      decryptionPhase L env cfg = Inr cfg)"
proof (intro conjI impI allI)
  fix k ks
  assume r: "decryptionPhase L env cfg = Inr cfg'"
  then have c: "cfg' = cfg \<or>
        (\<exists>pw c1. decryptBanksConfig L pw cfg = Inr c1 \<and> decryptFireflyConfig L pw c1 = Inr cfg')"
    by (auto simp: decryptionPhase_def Let_def split: if_splits sum.splits)
  {
    assume "k \<noteq> ''banks'' \<and> k \<noteq> ''firefly''"
    then show "config_get (k # ks) cfg' = config_get (k # ks) cfg"
      using c decryptBanksConfig_frame [of L _ cfg _ k ks]
        decryptFireflyConfig_frame(1) [of L _ _ cfg' k ks]
      by auto
  next
    assume "k \<noteq> ''tokenApi''"
    then show "config_get (''firefly'' # k # ks) cfg' = config_get (''firefly'' # k # ks) cfg"
      using c decryptBanksConfig_frame [of L _ cfg _ "''firefly''" "k # ks"]
        decryptFireflyConfig_frame(2) [of L _ _ cfg' k ks]
      by auto
  }
next
  assume "\<not> hasEncryptedValues (config_get [''banks''] cfg) \<and>
    \<not> isEncrypted (config_get [''firefly'', ''tokenApi''] cfg)"
  then show "decryptionPhase L env cfg = Inr cfg"
    by (simp add: decryptionPhase_def)
qed

theorem decryptionPhase_frame_witness:
  "decryptionPhase toy_lib env_master config_sealed = Inr config_opened \<and>
   config_get [''banks'', ''0'', ''credentials'', ''password''] config_opened = JStr ''fileval'' \<and>
   config_get [''firefly'', ''baseUrl''] config_opened = config_get [''firefly'', ''baseUrl''] config_sealed \<and>
   isEncrypted (config_get [''firefly'', ''baseUrl''] config_opened) \<and>
   decryptionPhase toy_lib env_none config_outside = Inr config_outside"
proof -
  have "\<forall>k ks. k \<noteq> ''tokenApi'' \<longrightarrow>
          config_get (''firefly'' # k # ks) config_opened = config_get (''firefly'' # k # ks) config_sealed"
    using decryptionPhase_frame [of toy_lib env_master config_sealed config_opened] phase_sealed
    by blast
  then have a: "config_get [''firefly'', ''baseUrl''] config_opened =
                config_get [''firefly'', ''baseUrl''] config_sealed"
    by simp
  have b: "decryptionPhase toy_lib env_none config_outside = Inr config_outside"
    using decryptionPhase_frame [of toy_lib env_none config_outside]
    by (simp add: config_outside_def example_banks_def plain_strings)
  have c: "config_get [''banks'', ''0'', ''credentials'', ''password''] config_opened = JStr ''fileval''"
    "isEncrypted (config_get [''firefly'', ''baseUrl''] config_opened)"
    by (simp_all add: config_opened_def example_banks_def array_index_def show_nat_0)
  show ?thesis
    using phase_sealed a b c by simp
qed


end
